theory Spec2Isabelle
  imports Complex_Main "HOL-Library.Monad_Syntax"
begin

section \<open>JavaScript numbers\<close>

text \<open>
  The handler computes with JavaScript numbers. A number is modelled as a finite real or
  one of the three special values that division by zero brings in: an image that failed to
  load has width and height 0, so \<^verbatim>\<open>maxImgWidth / imgWidth\<close> is \<^verbatim>\<open>Infinity\<close> and
  \<^verbatim>\<open>0 * Infinity\<close> is \<^verbatim>\<open>NaN\<close>. Signed zeros are not modelled: every divisor of the handler
  is a pixel count.

  Quotients and products are rounded to the nearest double, ties to even, as the scaling
  of an image computes them. \<open>binade x\<close> is the power of two with
  \<open>binade x \<le> x < 2 * binade x\<close>; a double in that range is a multiple of
  \<open>binade x / 2 ^ 52\<close>. The exponent is not bounded: the rounding is that of a double for
  magnitudes in the normal range, which the sizes of the handler never leave. Sums are
  kept exact: the cursor moves by the amounts the script adds.
\<close>

datatype jsnum = Fin real | PInf | NInf | NaN

function binade :: "real \<Rightarrow> real" where
  "binade x = (if 2 \<le> x then 2 * binade (x / 2)
               else if 0 < x \<and> x < 1 then binade (2 * x) / 2 else 1)"
  by pat_completeness auto
termination
proof (relation "measure (\<lambda>x. if 1 \<le> x then nat \<lfloor>x\<rfloor> else nat \<lfloor>1 / x\<rfloor> + 1)")
  show "wf (measure (\<lambda>x::real. if 1 \<le> x then nat \<lfloor>x\<rfloor> else nat \<lfloor>1 / x\<rfloor> + 1))"
    by simp
next
  fix x :: real
  assume x: "2 \<le> x"
  have "\<lfloor>x / 2\<rfloor> \<le> \<lfloor>x - 1\<rfloor>"
    by (rule floor_mono) (use x in simp)
  then have "\<lfloor>x / 2\<rfloor> < \<lfloor>x\<rfloor>" by simp
  moreover have "0 < \<lfloor>x\<rfloor>" using x by simp
  ultimately show
    "(x / 2, x) \<in> measure (\<lambda>x. if 1 \<le> x then nat \<lfloor>x\<rfloor> else nat \<lfloor>1 / x\<rfloor> + 1)"
    using x by simp
next
  fix x :: real
  assume "\<not> 2 \<le> x" and x: "0 < x \<and> x < 1"
  have y: "1 \<le> \<lfloor>1 / x\<rfloor>" using x by (simp add: le_floor_iff)
  show "(2 * x, x) \<in> measure (\<lambda>x. if 1 \<le> x then nat \<lfloor>x\<rfloor> else nat \<lfloor>1 / x\<rfloor> + 1)"
  proof (cases "1 \<le> 2 * x")
    case True
    have "\<lfloor>2 * x\<rfloor> = 1" using x True by (simp add: floor_eq_iff)
    moreover have "\<not> 1 \<le> x" using x by simp
    ultimately show ?thesis using True y by simp
  next
    case False
    have "1 / (2 * x) < of_int \<lfloor>1 / x\<rfloor>"
    proof -
      have "1 / x < of_int \<lfloor>1 / x\<rfloor> + 1" by linarith
      moreover have "(1::real) \<le> of_int \<lfloor>1 / x\<rfloor>" using y by simp
      moreover have "1 / (2 * x) = (1 / x) / 2" by simp
      ultimately show ?thesis by linarith
    qed
    then have "\<lfloor>1 / (2 * x)\<rfloor> < \<lfloor>1 / x\<rfloor>" by (simp add: floor_less_iff)
    moreover have "\<not> 1 \<le> x" using x by simp
    ultimately show ?thesis using False y by simp
  qed
qed

declare binade.simps [simp del]

text \<open>The integer nearest to \<open>q\<close>, the even one of the two when \<open>q\<close> is half way.\<close>

definition roundEven :: "real \<Rightarrow> int" where
  "roundEven q =
     (if q - of_int \<lfloor>q\<rfloor> < 1 / 2 then \<lfloor>q\<rfloor>
      else if 1 / 2 < q - of_int \<lfloor>q\<rfloor> then \<lfloor>q\<rfloor> + 1
      else if even \<lfloor>q\<rfloor> then \<lfloor>q\<rfloor> else \<lfloor>q\<rfloor> + 1)"

definition toDouble :: "real \<Rightarrow> real" where
  "toDouble x =
     (if x = 0 then 0
      else sgn x * of_int (roundEven (\<bar>x\<bar> / (binade \<bar>x\<bar> / 2 ^ 52))) * (binade \<bar>x\<bar> / 2 ^ 52))"

fun jadd :: "jsnum \<Rightarrow> jsnum \<Rightarrow> jsnum" where
  "jadd NaN b = NaN"
| "jadd a NaN = NaN"
| "jadd (Fin a) (Fin b) = Fin (a + b)"
| "jadd PInf NInf = NaN"
| "jadd NInf PInf = NaN"
| "jadd PInf b = PInf"
| "jadd a PInf = PInf"
| "jadd NInf b = NInf"
| "jadd a NInf = NInf"

fun jneg :: "jsnum \<Rightarrow> jsnum" where
  "jneg (Fin a) = Fin (- a)"
| "jneg PInf = NInf"
| "jneg NInf = PInf"
| "jneg NaN = NaN"

definition jsub :: "jsnum \<Rightarrow> jsnum \<Rightarrow> jsnum" where
  "jsub a b = jadd a (jneg b)"

fun jmul :: "jsnum \<Rightarrow> jsnum \<Rightarrow> jsnum" where
  "jmul NaN b = NaN"
| "jmul a NaN = NaN"
| "jmul (Fin a) (Fin b) = Fin (toDouble (a * b))"
| "jmul (Fin a) PInf = (if a = 0 then NaN else if 0 < a then PInf else NInf)"
| "jmul (Fin a) NInf = (if a = 0 then NaN else if 0 < a then NInf else PInf)"
| "jmul PInf (Fin b) = (if b = 0 then NaN else if 0 < b then PInf else NInf)"
| "jmul NInf (Fin b) = (if b = 0 then NaN else if 0 < b then NInf else PInf)"
| "jmul PInf PInf = PInf"
| "jmul PInf NInf = NInf"
| "jmul NInf PInf = NInf"
| "jmul NInf NInf = PInf"

fun jdiv :: "jsnum \<Rightarrow> jsnum \<Rightarrow> jsnum" where
  "jdiv NaN b = NaN"
| "jdiv a NaN = NaN"
| "jdiv (Fin a) (Fin b) =
     (if b \<noteq> 0 then Fin (toDouble (a / b))
      else if a = 0 then NaN else if 0 < a then PInf else NInf)"
| "jdiv (Fin a) PInf = Fin 0"
| "jdiv (Fin a) NInf = Fin 0"
| "jdiv PInf (Fin b) = (if 0 \<le> b then PInf else NInf)"
| "jdiv NInf (Fin b) = (if 0 \<le> b then NInf else PInf)"
| "jdiv PInf PInf = NaN"
| "jdiv PInf NInf = NaN"
| "jdiv NInf PInf = NaN"
| "jdiv NInf NInf = NaN"

text \<open>\<^verbatim>\<open>a < b\<close>: false as soon as one side is \<^verbatim>\<open>NaN\<close>.\<close>

fun jlt :: "jsnum \<Rightarrow> jsnum \<Rightarrow> bool" where
  "jlt NaN b = False"
| "jlt a NaN = False"
| "jlt (Fin a) (Fin b) = (a < b)"
| "jlt NInf NInf = False"
| "jlt PInf PInf = False"
| "jlt NInf b = True"
| "jlt a PInf = True"
| "jlt a NInf = False"
| "jlt PInf b = False"

definition jgt :: "jsnum \<Rightarrow> jsnum \<Rightarrow> bool" where
  "jgt a b = jlt b a"

text \<open>\<^verbatim>\<open>Math.min(a, b)\<close>: \<^verbatim>\<open>NaN\<close> as soon as one argument is.\<close>

fun jmin :: "jsnum \<Rightarrow> jsnum \<Rightarrow> jsnum" where
  "jmin NaN b = NaN"
| "jmin a NaN = NaN"
| "jmin a b = (if jlt b a then b else a)"

section \<open>Strings\<close>

text \<open>Template literals print a count in decimal.\<close>

definition digitChar :: "nat \<Rightarrow> char" where
  "digitChar d = ''0123456789'' ! d"

function showNat :: "nat \<Rightarrow> string" where
  "showNat n = (if n < 10 then [digitChar n] else showNat (n div 10) @ [digitChar (n mod 10)])"
  by pat_completeness auto
termination
  by (relation "measure id") auto

declare showNat.simps [simp del]

text \<open>
  \<^verbatim>\<open>String.prototype.trim\<close> on the ASCII white space and line terminators (a \<open>char\<close> is a
  byte; the non-ASCII spaces that \<^verbatim>\<open>trim\<close> also strips are outside the model).
\<close>

definition isSpace :: "char \<Rightarrow> bool" where
  "isSpace c = (c \<in> set [CHR '' '', CHR 0x09, CHR 0x0A, CHR 0x0B, CHR 0x0C, CHR 0x0D])"

definition trim :: "string \<Rightarrow> string" where
  "trim s = rev (dropWhile isSpace (rev (dropWhile isSpace s)))"

text \<open>\<^verbatim>\<open>Array.prototype.join\<close>.\<close>

fun join :: "string \<Rightarrow> string list \<Rightarrow> string" where
  "join sep [] = []"
| "join sep [x] = x"
| "join sep (x # y # ys) = x @ sep @ join sep (y # ys)"

section \<open>The document and the cursor\<close>

type_synonym rgb = "nat \<times> nat \<times> nat"

datatype align = AlignLeft | AlignCenter

text \<open>
  What a page holds. A text run keeps the position it was drawn at, its alignment and the
  font size, weight and text colour current when it was drawn; \<open>TextLinesOp\<close> is
  \<^verbatim>\<open>doc.text\<close> called with an array of lines; a rectangle keeps the fill colour, a line the
  draw colour and line width, an image its payload and format tag.
\<close>

datatype drawop =
    TextOp string real jsnum align real bool rgb
  | TextLinesOp "string list" real jsnum real bool rgb
  | RectOp real jsnum real real rgb
  | LineOp real jsnum real jsnum rgb real
  | ImageOp string string real jsnum jsnum jsnum

text \<open>
  The state of one run: the jsPDF document (its pages, the 1-based number of the current
  page and the graphics state the handler sets) and the handler's own \<^verbatim>\<open>yPos\<close>.
\<close>

record state =
  pages :: "drawop list list"
  curPage :: nat
  fontSize :: real
  fontBold :: bool
  textColor :: rgb
  fillColor :: rgb
  drawColor :: rgb
  lineWidth :: real
  yPos :: jsnum

definition pageWidth :: real where "pageWidth = 210"
definition pageHeight :: real where "pageHeight = 297"
definition margin :: real where "margin = 20"
definition contentWidth :: real where "contentWidth = pageWidth - margin * 2"

text \<open>
  What the handler takes from outside the script: jsPDF's line breaking (which depends on
  the current font size and weight), the width and height the browser's \<^verbatim>\<open>Image\<close> reports
  once \<^verbatim>\<open>onload\<close> or \<^verbatim>\<open>onerror\<close> has fired (both 0 when the payload could not be decoded),
  whether \<^verbatim>\<open>doc.addImage\<close> refuses a call by throwing, the locale formatting of the
  inspection date, and the clock: \<open>localeNow env k\<close> is \<^verbatim>\<open>new Date().toLocaleString()\<close> at
  the \<open>k\<close>-th reading of the run (counted from 0).
\<close>

record env =
  splitTextToSize :: "real \<Rightarrow> bool \<Rightarrow> string \<Rightarrow> real \<Rightarrow> string list"
  imageDims :: "string \<Rightarrow> nat \<times> nat"
  addImageThrows :: "string \<Rightarrow> string \<Rightarrow> real \<Rightarrow> jsnum \<Rightarrow> jsnum \<Rightarrow> jsnum \<Rightarrow> bool"
  formatDate :: "string \<Rightarrow> string"
  localeNow :: "nat \<Rightarrow> string"

record defect =
  defectId :: nat
  defectType :: string
  imageData :: string
  imageName :: string
  description :: string

text \<open>The form: the value of the element with a given id, if there is such an element.\<close>

type_synonym form = "string \<Rightarrow> string option"

definition getFieldValue :: "form \<Rightarrow> string \<Rightarrow> string" where
  "getFieldValue f ident = (case f ident of None \<Rightarrow> [] | Some v \<Rightarrow> trim v)"

text \<open>\<^verbatim>\<open>a || b\<close> on strings: the empty string is falsy.\<close>

definition orElse :: "string \<Rightarrow> string \<Rightarrow> string" where
  "orElse a b = (if a \<noteq> [] then a else b)"

subsection \<open>The jsPDF calls the handler makes\<close>

text \<open>
  \<^verbatim>\<open>new jsPDF(...)\<close> has one page, which is current; the graphics state starts from the
  library's defaults. \<^verbatim>\<open>yPos\<close> starts at the margin.
\<close>

definition newDoc :: state where
  "newDoc = \<lparr>pages = [[]], curPage = 1, fontSize = 16, fontBold = False,
     textColor = (0, 0, 0), fillColor = (0, 0, 0), drawColor = (0, 0, 0),
     lineWidth = 0.200025, yPos = Fin margin\<rparr>"

definition drawOp :: "drawop \<Rightarrow> state \<Rightarrow> state" where
  "drawOp op s = s\<lparr>pages := (pages s)[curPage s - 1 := pages s ! (curPage s - 1) @ [op]]\<rparr>"

text \<open>
  A drawing call throws when a coordinate it is given is \<^verbatim>\<open>NaN\<close> ("Invalid arguments
  passed to jsPDF.text", and the like for \<^verbatim>\<open>rect\<close>, \<^verbatim>\<open>line\<close> and \<^verbatim>\<open>addImage\<close>), and draws
  nothing then. A call that throws is \<open>None\<close>: the exception leaves the handler through
  the nearest \<^verbatim>\<open>catch\<close>. The horizontal coordinates and the sizes of rectangles are
  constants of the script, so only the vertical coordinate can be \<^verbatim>\<open>NaN\<close>.
\<close>

definition docText :: "string \<Rightarrow> real \<Rightarrow> jsnum \<Rightarrow> align \<Rightarrow> state \<Rightarrow> state option" where
  "docText t x y a s =
     (if y = NaN then None
      else Some (drawOp (TextOp t x y a (fontSize s) (fontBold s) (textColor s)) s))"

definition docTextLines :: "string list \<Rightarrow> real \<Rightarrow> jsnum \<Rightarrow> state \<Rightarrow> state option" where
  "docTextLines ls x y s =
     (if y = NaN then None
      else Some (drawOp (TextLinesOp ls x y (fontSize s) (fontBold s) (textColor s)) s))"

definition docRect :: "real \<Rightarrow> jsnum \<Rightarrow> real \<Rightarrow> real \<Rightarrow> state \<Rightarrow> state option" where
  "docRect x y w h s =
     (if y = NaN then None else Some (drawOp (RectOp x y w h (fillColor s)) s))"

definition docLine :: "real \<Rightarrow> jsnum \<Rightarrow> real \<Rightarrow> jsnum \<Rightarrow> state \<Rightarrow> state option" where
  "docLine x1 y1 x2 y2 s =
     (if y1 = NaN \<or> y2 = NaN then None
      else Some (drawOp (LineOp x1 y1 x2 y2 (drawColor s) (lineWidth s)) s))"

text \<open>
  \<^verbatim>\<open>doc.addImage\<close> throws on a \<^verbatim>\<open>NaN\<close> position and when the library refuses the payload;
  a width or height that is \<^verbatim>\<open>NaN\<close> is not refused.
\<close>

definition docAddImage ::
  "env \<Rightarrow> string \<Rightarrow> string \<Rightarrow> real \<Rightarrow> jsnum \<Rightarrow> jsnum \<Rightarrow> jsnum \<Rightarrow> state \<Rightarrow> state option" where
  "docAddImage e dat fmt x y w h s =
     (if y = NaN \<or> addImageThrows e dat fmt x y w h then None
      else Some (drawOp (ImageOp dat fmt x y w h) s))"

text \<open>\<^verbatim>\<open>doc.addPage()\<close> appends an empty page and makes it current.\<close>

definition docAddPage :: "state \<Rightarrow> state" where
  "docAddPage s = s\<lparr>pages := pages s @ [[]], curPage := length (pages s) + 1\<rparr>"

definition docSetPage :: "nat \<Rightarrow> state \<Rightarrow> state" where
  "docSetPage i s = s\<lparr>curPage := i\<rparr>"

definition getNumberOfPages :: "state \<Rightarrow> nat" where
  "getNumberOfPages s = length (pages s)"

text \<open>\<^verbatim>\<open>yPos += k\<close>.\<close>

definition advance :: "real \<Rightarrow> state \<Rightarrow> state" where
  "advance k s = s\<lparr>yPos := jadd (yPos s) (Fin k)\<rparr>"

text \<open>\<^verbatim>\<open>forEach\<close> with a body that may throw: the first exception ends the loop.\<close>

primrec forEach :: "(state \<Rightarrow> 'a \<Rightarrow> state option) \<Rightarrow> state \<Rightarrow> 'a list \<Rightarrow> state option" where
  "forEach body s [] = Some s"
| "forEach body s (x # xs) = Option.bind (body s x) (\<lambda>s'. forEach body s' xs)"

section \<open>The helpers of the handler\<close>

text \<open>\<^verbatim>\<open>checkNewPage(requiredSpace)\<close>: the returned flag and the state after the call.\<close>

definition checkNewPage :: "real \<Rightarrow> state \<Rightarrow> bool \<times> state" where
  "checkNewPage requiredSpace s =
     (if jgt (jadd (yPos s) (Fin requiredSpace)) (Fin (pageHeight - margin))
      then (True, (docAddPage s)\<lparr>yPos := Fin margin\<rparr>)
      else (False, s))"

definition addLine :: "state \<Rightarrow> state option" where
  "addLine s = do {
     let s1 = s\<lparr>drawColor := (200, 200, 200)\<rparr>;
     let s2 = s1\<lparr>lineWidth := 0.5\<rparr>;
     s3 \<leftarrow> docLine margin (yPos s2) (pageWidth - margin) (yPos s2) s2;
     Some (advance 5 s3)
   }"

text \<open>The body of the \<^verbatim>\<open>forEach\<close> of \<^verbatim>\<open>addText\<close>.\<close>

definition addTextLine :: "real \<Rightarrow> state \<Rightarrow> string \<Rightarrow> state option" where
  "addTextLine lineHeight s txtLine = do {
     let s1 = snd (checkNewPage (lineHeight + 2) s);
     s2 \<leftarrow> docText txtLine margin (yPos s1) AlignLeft s1;
     Some (advance lineHeight s2)
   }"

definition addText :: "env \<Rightarrow> string \<Rightarrow> real \<Rightarrow> bool \<Rightarrow> state \<Rightarrow> state option" where
  "addText e txt fontSz isBold s = do {
     let s1 = s\<lparr>fontSize := fontSz\<rparr>;
     let s2 = s1\<lparr>fontBold := isBold\<rparr>;
     let lns = splitTextToSize e (fontSize s2) (fontBold s2) txt contentWidth;
     let lineHeight = fontSz * 0.5;
     s3 \<leftarrow> forEach (addTextLine lineHeight) s2 lns;
     Some (advance 2 s3)
   }"

definition addSectionHeader :: "string \<Rightarrow> state \<Rightarrow> state option" where
  "addSectionHeader title s = do {
     let s1 = snd (checkNewPage 20 s);
     let s2 = advance 5 s1;
     let s3 = s2\<lparr>fillColor := (240, 240, 240)\<rparr>;
     s4 \<leftarrow> docRect margin (jsub (yPos s3) (Fin 5)) contentWidth 10 s3;
     let s5 = s4\<lparr>fontSize := 12\<rparr>;
     let s6 = s5\<lparr>fontBold := True\<rparr>;
     let s7 = s6\<lparr>textColor := (30, 30, 30)\<rparr>;
     s8 \<leftarrow> docText title (margin + 3) (jadd (yPos s7) (Fin 2)) AlignLeft s7;
     let s9 = advance 12 s8;
     Some (s9\<lparr>textColor := (0, 0, 0)\<rparr>)
   }"

section \<open>The click handler, section by section\<close>

subsection \<open>Document header\<close>

definition contactInfo :: "form \<Rightarrow> string list" where
  "contactInfo f =
     (let companyPhone = getFieldValue f ''companyPhone'';
          companyEmail = getFieldValue f ''companyEmail''
      in (if companyPhone \<noteq> [] then [companyPhone] else [])
         @ (if companyEmail \<noteq> [] then [companyEmail] else []))"

text \<open>The contact line: drawn only when there is a phone number or an e-mail address.\<close>

definition contactLine :: "form \<Rightarrow> state \<Rightarrow> state option" where
  "contactLine f s =
     (if 0 < length (contactInfo f)
      then do {
        s1 \<leftarrow> docText (join '' | '' (contactInfo f)) (pageWidth / 2) (yPos s) AlignCenter s;
        Some (advance 8 s1)
      }
      else Some s)"

definition documentHeader :: "form \<Rightarrow> state \<Rightarrow> state option" where
  "documentHeader f s = do {
     let companyName = orElse (getFieldValue f ''companyName'') ''Inspection Company'';
     let reportTitle = orElse (getFieldValue f ''reportTitle'') ''Home Defect Inspection Report'';
     let s1 = s\<lparr>fontSize := 20\<rparr>;
     let s2 = s1\<lparr>fontBold := True\<rparr>;
     s3 \<leftarrow> docText companyName (pageWidth / 2) (yPos s2) AlignCenter s2;
     let s4 = advance 10 s3;
     let s5 = s4\<lparr>fontSize := 10\<rparr>;
     let s6 = s5\<lparr>fontBold := False\<rparr>;
     s7 \<leftarrow> contactLine f s6;
     let s8 = s7\<lparr>fontSize := 16\<rparr>;
     let s9 = s8\<lparr>fontBold := True\<rparr>;
     s10 \<leftarrow> docText reportTitle (pageWidth / 2) (jadd (yPos s9) (Fin 5)) AlignCenter s9;
     let s11 = advance 15 s10;
     addLine s11
   }"

subsection \<open>Client and property details\<close>

text \<open>A label in bold and its value in the normal weight, on one line.\<close>

definition labelled :: "string \<Rightarrow> string \<Rightarrow> state \<Rightarrow> state option" where
  "labelled label v s = do {
     let s1 = s\<lparr>fontBold := True\<rparr>;
     s2 \<leftarrow> docText label margin (yPos s1) AlignLeft s1;
     let s3 = s2\<lparr>fontBold := False\<rparr>;
     s4 \<leftarrow> docText v (margin + 35) (yPos s3) AlignLeft s3;
     Some (advance 6 s4)
   }"

text \<open>A label in bold and a value wrapped to the content width less 40.\<close>

definition labelledWrapped :: "env \<Rightarrow> string \<Rightarrow> string \<Rightarrow> state \<Rightarrow> state option" where
  "labelledWrapped e label v s = do {
     let s1 = s\<lparr>fontBold := True\<rparr>;
     s2 \<leftarrow> docText label margin (yPos s1) AlignLeft s1;
     let s3 = s2\<lparr>fontBold := False\<rparr>;
     let lns = splitTextToSize e (fontSize s3) (fontBold s3) v (contentWidth - 40);
     s4 \<leftarrow> docTextLines lns (margin + 35) (yPos s3) s3;
     Some (advance (real (length lns) * 5 + 2) s4)
   }"

text \<open>The five guarded blocks of the section, one per field.\<close>

definition clientNameRow :: "form \<Rightarrow> state \<Rightarrow> state option" where
  "clientNameRow f s =
     (let clientName = getFieldValue f ''clientName''
      in if clientName \<noteq> [] then labelled ''Client Name:'' clientName s else Some s)"

definition clientAddressRow :: "env \<Rightarrow> form \<Rightarrow> state \<Rightarrow> state option" where
  "clientAddressRow e f s =
     (let clientAddress = getFieldValue f ''clientAddress''
      in if clientAddress \<noteq> []
         then labelledWrapped e ''Property Address:'' clientAddress s else Some s)"

definition inspectionDateRow :: "env \<Rightarrow> form \<Rightarrow> state \<Rightarrow> state option" where
  "inspectionDateRow e f s =
     (let inspectionDate = getFieldValue f ''inspectionDate''
      in if inspectionDate \<noteq> []
         then labelled ''Inspection Date:'' (formatDate e inspectionDate) s else Some s)"

definition inspectorRow :: "form \<Rightarrow> state \<Rightarrow> state option" where
  "inspectorRow f s =
     (let inspectorName = getFieldValue f ''inspectorName''
      in if inspectorName \<noteq> [] then labelled ''Inspector:'' inspectorName s else Some s)"

definition credentialsRow :: "env \<Rightarrow> form \<Rightarrow> state \<Rightarrow> state option" where
  "credentialsRow e f s =
     (let inspectorCredentials = getFieldValue f ''inspectorCredentials''
      in if inspectorCredentials \<noteq> []
         then labelledWrapped e ''Credentials:'' inspectorCredentials s else Some s)"

definition clientDetails :: "env \<Rightarrow> form \<Rightarrow> state \<Rightarrow> state option" where
  "clientDetails e f s = do {
     s0 \<leftarrow> addSectionHeader ''Property & Client Details'' s;
     let s1 = s0\<lparr>fontSize := 10\<rparr>;
     s2 \<leftarrow> clientNameRow f s1;
     s3 \<leftarrow> clientAddressRow e f s2;
     s4 \<leftarrow> inspectionDateRow e f s3;
     s5 \<leftarrow> inspectorRow f s4;
     s6 \<leftarrow> credentialsRow e f s5;
     Some (advance 5 s6)
   }"

subsection \<open>Inspection details table\<close>

definition tableData :: "form \<Rightarrow> (string \<times> string) list" where
  "tableData f =
     [(''Attendance'', orElse (getFieldValue f ''attendance'') ''N/A''),
      (''Occupancy'', orElse (getFieldValue f ''occupancy'') ''N/A''),
      (''Type of Building'', orElse (getFieldValue f ''buildingType'') ''N/A''),
      (''Weather Condition'', orElse (getFieldValue f ''weatherCondition'') ''N/A'')]"

text \<open>The body of \<^verbatim>\<open>tableData.forEach((row, index) => ...)\<close>.\<close>

definition tableRow :: "state \<Rightarrow> nat \<times> string \<times> string \<Rightarrow> state option" where
  "tableRow s ir = do {
     let index = fst ir;
     let row = snd ir;
     let colWidth = contentWidth / 2;
     let s1 = snd (checkNewPage 8 s);
     s2 \<leftarrow> (if index mod 2 = 0
            then docRect margin (jsub (yPos s1) (Fin 4)) contentWidth 8
                   (s1\<lparr>fillColor := (248, 248, 248)\<rparr>)
            else Some s1);
     let s3 = s2\<lparr>fontBold := True\<rparr>;
     s4 \<leftarrow> docText (fst row) (margin + 2) (yPos s3) AlignLeft s3;
     let s5 = s4\<lparr>fontBold := False\<rparr>;
     s6 \<leftarrow> docText (snd row) (margin + colWidth) (yPos s5) AlignLeft s5;
     Some (advance 8 s6)
   }"

definition inspectionDetails :: "form \<Rightarrow> state \<Rightarrow> state option" where
  "inspectionDetails f s = do {
     s0 \<leftarrow> addSectionHeader ''Inspection Details'' s;
     let s1 = s0\<lparr>fontSize := 10\<rparr>;
     s2 \<leftarrow> forEach tableRow s1 (enumerate 0 (tableData f));
     Some (advance 5 s2)
   }"

subsection \<open>Disclaimer\<close>

definition disclaimerLine :: "state \<Rightarrow> string \<Rightarrow> state option" where
  "disclaimerLine s txtLine = do {
     let s1 = snd (checkNewPage 5 s);
     s2 \<leftarrow> docText txtLine margin (yPos s1) AlignLeft s1;
     Some (advance 4.5 s2)
   }"

definition disclaimerSection :: "env \<Rightarrow> form \<Rightarrow> state \<Rightarrow> state option" where
  "disclaimerSection e f s = do {
     s0 \<leftarrow> addSectionHeader ''General Disclaimer'' s;
     let disclaimer = getFieldValue f ''disclaimer'';
     s1 \<leftarrow> (if disclaimer \<noteq> []
            then do {
              let a = s0\<lparr>fontSize := 9\<rparr>;
              let b = a\<lparr>fontBold := False\<rparr>;
              let c = b\<lparr>textColor := (80, 80, 80)\<rparr>;
              let disclaimerLines =
                splitTextToSize e (fontSize c) (fontBold c) disclaimer contentWidth;
              d \<leftarrow> forEach disclaimerLine c disclaimerLines;
              Some (d\<lparr>textColor := (0, 0, 0)\<rparr>)
            }
            else Some s0);
     Some (advance 5 s1)
   }"

subsection \<open>Defects\<close>

definition maxImgWidth :: real where "maxImgWidth = contentWidth"
definition maxImgHeight :: real where "maxImgHeight = 80"

text \<open>
  The scaling of an image whose \<^verbatim>\<open>Image\<close> element reports width \<open>w\<close> and height \<open>h\<close>:
  the ratio, and the scaled width and height.
\<close>

definition imgRatio :: "nat \<Rightarrow> nat \<Rightarrow> jsnum" where
  "imgRatio w h =
     jmin (jdiv (Fin maxImgWidth) (Fin (real w))) (jdiv (Fin maxImgHeight) (Fin (real h)))"

definition scaleImage :: "nat \<Rightarrow> nat \<Rightarrow> jsnum \<times> jsnum" where
  "scaleImage w h = (jmul (Fin (real w)) (imgRatio w h), jmul (Fin (real h)) (imgRatio w h))"

definition defectTitle :: "nat \<Rightarrow> defect \<Rightarrow> string" where
  "defectTitle i d = ''Defect #'' @ showNat (i + 1) @ '': '' @ defectType d"

text \<open>
  The defect's heading, in the heading colour; the cursor moves down by 8.
  \<open>headingStyle\<close> is the state in which the heading's \<^verbatim>\<open>doc.text\<close> is called.
\<close>

definition headingStyle :: "state \<Rightarrow> state" where
  "headingStyle s =
     (let s1 = s\<lparr>fontSize := 11\<rparr>;
          s2 = s1\<lparr>fontBold := True\<rparr>
      in s2\<lparr>textColor := (44, 82, 130)\<rparr>)"

definition defectHeading :: "string \<Rightarrow> state \<Rightarrow> state option" where
  "defectHeading title s = do {
     let s3 = headingStyle s;
     s4 \<leftarrow> docText title margin (yPos s3) AlignLeft s3;
     let s5 = s4\<lparr>textColor := (0, 0, 0)\<rparr>;
     Some (advance 8 s5)
   }"

text \<open>The statements of the \<^verbatim>\<open>try\<close> block before \<^verbatim>\<open>doc.addImage\<close>: the page-fit check.\<close>

definition imageFit :: "nat \<Rightarrow> defect \<Rightarrow> jsnum \<Rightarrow> state \<Rightarrow> state option" where
  "imageFit i d imgHeight s =
     (if jgt (jadd (jadd (yPos s) imgHeight) (Fin 20)) (Fin (pageHeight - margin))
      then defectHeading (defectTitle i d @ '' (continued)'')
             ((docAddPage s)\<lparr>yPos := Fin margin\<rparr>)
      else Some s)"

text \<open>The \<^verbatim>\<open>catch\<close> block.\<close>

definition imageError :: "state \<Rightarrow> state option" where
  "imageError s = do {
     let s1 = s\<lparr>fontSize := 10\<rparr>;
     let s2 = s1\<lparr>textColor := (150, 0, 0)\<rparr>;
     s3 \<leftarrow> docText ''[Image could not be loaded]'' margin (yPos s2) AlignLeft s2;
     let s4 = s3\<lparr>textColor := (0, 0, 0)\<rparr>;
     Some (advance 8 s4)
   }"

text \<open>
  The \<^verbatim>\<open>try\<close>/\<^verbatim>\<open>catch\<close> of one defect. The \<^verbatim>\<open>Image\<close> never throws: its promise resolves on
  \<^verbatim>\<open>onload\<close> and on \<^verbatim>\<open>onerror\<close> alike. Two calls of the \<^verbatim>\<open>try\<close> block can throw, the
  \<^verbatim>\<open>doc.text\<close> of the repeated heading and \<^verbatim>\<open>doc.addImage\<close>; the \<^verbatim>\<open>catch\<close> block then runs
  on the state the call was made in, since what the block did before stays done. An
  exception of the \<^verbatim>\<open>catch\<close> block itself is not caught here.
\<close>

definition defectImage :: "env \<Rightarrow> nat \<Rightarrow> defect \<Rightarrow> state \<Rightarrow> state option" where
  "defectImage e i d s =
     (let imgWidth = fst (scaleImage (fst (imageDims e (imageData d))) (snd (imageDims e (imageData d))));
          imgHeight = snd (scaleImage (fst (imageDims e (imageData d))) (snd (imageDims e (imageData d))))
      in case imageFit i d imgHeight s of
           None \<Rightarrow> imageError (headingStyle ((docAddPage s)\<lparr>yPos := Fin margin\<rparr>))
         | Some s1 \<Rightarrow>
             (case docAddImage e (imageData d) ''JPEG'' margin (yPos s1) imgWidth imgHeight s1 of
                None \<Rightarrow> imageError s1
              | Some s2 \<Rightarrow> Some (s2\<lparr>yPos := jadd (yPos s2) (jadd imgHeight (Fin 5))\<rparr>)))"

definition descLine :: "state \<Rightarrow> string \<Rightarrow> state option" where
  "descLine s txtLine = do {
     let s1 = snd (checkNewPage 6 s);
     s2 \<leftarrow> docText txtLine margin (yPos s1) AlignLeft s1;
     Some (advance 5 s2)
   }"

definition defectDescription :: "env \<Rightarrow> defect \<Rightarrow> state \<Rightarrow> state option" where
  "defectDescription e d s = do {
     let s1 = s\<lparr>fontSize := 10\<rparr>;
     let s2 = s1\<lparr>fontBold := False\<rparr>;
     let descLines = splitTextToSize e (fontSize s2) (fontBold s2) (description d) contentWidth;
     s3 \<leftarrow> forEach descLine s2 descLines;
     Some (advance 10 s3)
   }"

definition separator :: "state \<Rightarrow> state option" where
  "separator s = do {
     let s1 = snd (checkNewPage 15 s);
     let s2 = s1\<lparr>drawColor := (220, 220, 220)\<rparr>;
     let s3 = s2\<lparr>lineWidth := 0.3\<rparr>;
     s4 \<leftarrow> docLine margin (yPos s3) (pageWidth - margin) (yPos s3) s3;
     Some (advance 10 s4)
   }"

text \<open>One round of the loop over the defects: \<open>n\<close> is \<^verbatim>\<open>defects.length\<close>, \<open>i\<close> the index.\<close>

definition renderDefect :: "env \<Rightarrow> nat \<Rightarrow> nat \<Rightarrow> defect \<Rightarrow> state \<Rightarrow> state option" where
  "renderDefect e n i d s = do {
     let s1 = snd (checkNewPage 100 s);
     s2 \<leftarrow> defectHeading (defectTitle i d) s1;
     s3 \<leftarrow> defectImage e i d s2;
     s4 \<leftarrow> defectDescription e d s3;
     if int i < int n - 1 then separator s4 else Some s4
   }"

text \<open>The loop, from index \<open>i\<close> on, over the defects that are left.\<close>

primrec defectsLoop :: "env \<Rightarrow> nat \<Rightarrow> nat \<Rightarrow> defect list \<Rightarrow> state \<Rightarrow> state option" where
  "defectsLoop e n i [] s = Some s"
| "defectsLoop e n i (d # ds) s =
     Option.bind (renderDefect e n i d s) (defectsLoop e n (Suc i) ds)"

definition defectsTitle :: "nat \<Rightarrow> string" where
  "defectsTitle n = ''Identified Defects ('' @ showNat n @ '' Total)''"

definition defectsSection :: "env \<Rightarrow> defect list \<Rightarrow> state \<Rightarrow> state option" where
  "defectsSection e defects s =
     (if 0 < length defects
      then do {
        let s1 = (docAddPage s)\<lparr>yPos := Fin margin\<rparr>;
        s2 \<leftarrow> addSectionHeader (defectsTitle (length defects)) s1;
        defectsLoop e (length defects) 0 defects s2
      }
      else Some s)"

subsection \<open>Footer on all pages\<close>

definition pageStamp :: "nat \<Rightarrow> nat \<Rightarrow> string" where
  "pageStamp i totalPages = ''Page '' @ showNat i @ '' of '' @ showNat totalPages"

definition timeStamp :: "string \<Rightarrow> string" where
  "timeStamp timestamp = ''Report generated: '' @ timestamp"

text \<open>
  One round of the footer loop, for page \<open>i\<close>. The timestamp is read inside the loop: the
  round for page \<open>i\<close> makes the \<open>i\<close>-th reading of the clock of the run.
\<close>

definition footerStep :: "env \<Rightarrow> nat \<Rightarrow> state \<Rightarrow> nat \<Rightarrow> state option" where
  "footerStep e totalPages s i = do {
     let s1 = docSetPage i s;
     let s2 = s1\<lparr>fontSize := 8\<rparr>;
     let s3 = s2\<lparr>fontBold := False\<rparr>;
     let s4 = s3\<lparr>textColor := (150, 150, 150)\<rparr>;
     s5 \<leftarrow> docText (pageStamp i totalPages) (pageWidth / 2) (Fin (pageHeight - 10))
            AlignCenter s4;
     let timestamp = localeNow e (i - 1);
     docText (timeStamp timestamp) (pageWidth / 2) (Fin (pageHeight - 6)) AlignCenter s5
   }"

definition footers :: "env \<Rightarrow> state \<Rightarrow> state option" where
  "footers e s =
     (let totalPages = getNumberOfPages s
      in forEach (footerStep e totalPages) s [1..<Suc totalPages])"

subsection \<open>The whole run\<close>

text \<open>
  The sections before the defects, the document before the footers are stamped, and the
  run of the handler: \<open>Some\<close> the finished document, or \<open>None\<close> when an exception reaches
  the outer \<^verbatim>\<open>catch\<close>, which reports "Error generating PDF" and saves nothing. The status
  line, the file name and \<^verbatim>\<open>doc.save\<close> come after the footers and change nothing in the
  document; they are not part of the model.
\<close>

definition reportSections :: "env \<Rightarrow> form \<Rightarrow> state option" where
  "reportSections e f = do {
     s1 \<leftarrow> documentHeader f newDoc;
     s2 \<leftarrow> clientDetails e f s1;
     s3 \<leftarrow> inspectionDetails f s2;
     disclaimerSection e f s3
   }"

definition composeBody :: "env \<Rightarrow> form \<Rightarrow> defect list \<Rightarrow> state option" where
  "composeBody e f defects = Option.bind (reportSections e f) (defectsSection e defects)"

definition generatePdf :: "env \<Rightarrow> form \<Rightarrow> defect list \<Rightarrow> state option" where
  "generatePdf e f defects = Option.bind (composeBody e f defects) (footers e)"

section \<open>Notions the properties are stated with\<close>

text \<open>The current page is the last page, as it is throughout the composition.\<close>

definition wfDoc :: "state \<Rightarrow> bool" where
  "wfDoc s = (pages s \<noteq> [] \<and> curPage s = length (pages s))"

text \<open>A list of pages with some operations appended to the last page.\<close>

definition onLastPage :: "drawop list list \<Rightarrow> drawop list \<Rightarrow> drawop list list" where
  "onLastPage ps ops = butlast ps @ [last ps @ ops]"

text \<open>The strings a page shows, in drawing order.\<close>

fun opTexts :: "drawop \<Rightarrow> string list" where
  "opTexts (TextOp t x y a fs b c) = [t]"
| "opTexts (TextLinesOp ls x y fs b c) = ls"
| "opTexts (RectOp x y w h c) = []"
| "opTexts (LineOp x1 y1 x2 y2 c lw) = []"
| "opTexts (ImageOp dat fmt x y w h) = []"

definition allTexts :: "state \<Rightarrow> string list" where
  "allTexts s = concat (map opTexts (concat (pages s)))"

text \<open>The images a document embeds, in drawing order: the payload and the format tag.\<close>

fun opImages :: "drawop \<Rightarrow> (string \<times> string) list" where
  "opImages (ImageOp dat fmt x y w h) = [(dat, fmt)]"
| "opImages (TextOp t x y a fs b c) = []"
| "opImages (TextLinesOp ls x y fs b c) = []"
| "opImages (RectOp x y w h c) = []"
| "opImages (LineOp x1 y1 x2 y2 c lw) = []"

definition docImages :: "state \<Rightarrow> (string \<times> string) list" where
  "docImages s = concat (map opImages (concat (pages s)))"

text \<open>A centred text run on one of the two footer lines.\<close>

fun footerOp :: "drawop \<Rightarrow> bool" where
  "footerOp (TextOp t x y a fs b c) =
     (a = AlignCenter \<and> (y = Fin (pageHeight - 10) \<or> y = Fin (pageHeight - 6)))"
| "footerOp (TextLinesOp ls x y fs b c) = False"
| "footerOp (RectOp x y w h c) = False"
| "footerOp (LineOp x1 y1 x2 y2 c lw) = False"
| "footerOp (ImageOp dat fmt x y w h) = False"

definition footerOf :: "env \<Rightarrow> nat \<Rightarrow> nat \<Rightarrow> drawop list" where
  "footerOf e totalPages k =
     [TextOp (pageStamp (Suc k) totalPages) (pageWidth / 2) (Fin (pageHeight - 10))
        AlignCenter 8 False (150, 150, 150),
      TextOp (timeStamp (localeNow e k)) (pageWidth / 2) (Fin (pageHeight - 6))
        AlignCenter 8 False (150, 150, 150)]"

text \<open>
  The vertical position an operation is drawn at, and the operations of a document that
  are drawn below the bottom edge of their page.
\<close>

fun opY :: "drawop \<Rightarrow> jsnum" where
  "opY (TextOp t x y a fs b c) = y"
| "opY (TextLinesOp ls x y fs b c) = y"
| "opY (RectOp x y w h c) = y"
| "opY (LineOp x1 y1 x2 y2 c lw) = y1"
| "opY (ImageOp dat fmt x y w h) = y"

definition offPage :: "state \<Rightarrow> drawop list" where
  "offPage s = filter (\<lambda>op. jgt (opY op) (Fin pageHeight)) (concat (pages s))"

text \<open>
  \<^verbatim>\<open>addText\<close> on a page of unbounded height: the same wrap, every line written on the
  current page, no page-break check.
\<close>

definition addTextLineUnbounded :: "real \<Rightarrow> state \<Rightarrow> string \<Rightarrow> state option" where
  "addTextLineUnbounded lineHeight s txtLine = do {
     s2 \<leftarrow> docText txtLine margin (yPos s) AlignLeft s;
     Some (advance lineHeight s2)
   }"

definition addTextUnbounded :: "env \<Rightarrow> string \<Rightarrow> real \<Rightarrow> bool \<Rightarrow> state \<Rightarrow> state option" where
  "addTextUnbounded e txt fontSz isBold s = do {
     let s1 = s\<lparr>fontSize := fontSz\<rparr>;
     let s2 = s1\<lparr>fontBold := isBold\<rparr>;
     let lns = splitTextToSize e (fontSize s2) (fontBold s2) txt contentWidth;
     let lineHeight = fontSz * 0.5;
     s3 \<leftarrow> forEach (addTextLineUnbounded lineHeight) s2 lns;
     Some (advance 2 s3)
   }"

text \<open>
  What the composition draws: nothing on the footer lines, and images tagged \<^verbatim>\<open>JPEG\<close> only.
\<close>

definition bodyOp :: "drawop \<Rightarrow> bool" where
  "bodyOp op = (\<not> footerOp op \<and> snd ` set (opImages op) \<subseteq> {''JPEG''})"

text \<open>
  \<open>grows s t\<close>: the document of \<open>t\<close> is the document of \<open>s\<close> with operations appended to
  the page that was last in \<open>s\<close> and with further pages after it, every new operation
  being a \<open>bodyOp\<close>; and the current page of \<open>t\<close> is its last page.
\<close>

definition grows :: "state \<Rightarrow> state \<Rightarrow> bool" where
  "grows s t =
     (wfDoc t \<and>
      (\<exists>ops more. pages t = butlast (pages s) @ (last (pages s) @ ops) # more
         \<and> list_all bodyOp ops \<and> list_all (list_all bodyOp) more))"

text \<open>
  \<open>after m P\<close>: if the computation \<open>m\<close> returns, its result satisfies \<open>P\<close>.
  \<open>yields m P\<close>: the computation \<open>m\<close> returns, and its result satisfies \<open>P\<close>.
\<close>

definition after :: "'a option \<Rightarrow> ('a \<Rightarrow> bool) \<Rightarrow> bool" where
  "after m P = (case m of None \<Rightarrow> True | Some x \<Rightarrow> P x)"

definition yields :: "'a option \<Rightarrow> ('a \<Rightarrow> bool) \<Rightarrow> bool" where
  "yields m P = (case m of None \<Rightarrow> False | Some x \<Rightarrow> P x)"

text \<open>
  \<open>calm s t\<close>: the cursor of \<open>t\<close> is a number, its current page is its last page and it
  embeds the images of \<open>s\<close>, no more and no fewer.
\<close>

definition calm :: "state \<Rightarrow> state \<Rightarrow> bool" where
  "calm s t = (wfDoc t \<and> yPos t \<noteq> NaN \<and> docImages t = docImages s)"

text \<open>
  The image of a defect loads: the browser decodes the payload to a width and a height
  that are not 0, and \<^verbatim>\<open>doc.addImage\<close> takes it wherever and at whatever size it is placed.
\<close>

definition imageLoads :: "env \<Rightarrow> defect \<Rightarrow> bool" where
  "imageLoads e d =
     (0 < fst (imageDims e (imageData d)) \<and> 0 < snd (imageDims e (imageData d))
      \<and> (\<forall>x y w h. \<not> addImageThrows e (imageData d) ''JPEG'' x y w h))"

section \<open>Concrete runs\<close>

text \<open>
  A form with no element filled in, and environments to run the handler in. \<open>plainEnv\<close>
  keeps every text on one line, reports 640 by 320 pixels for every image, embeds every
  image and always reads the same time.
\<close>

definition emptyForm :: form where
  "emptyForm = (\<lambda>ident. None)"

definition plainEnv :: env where
  "plainEnv = \<lparr>splitTextToSize = (\<lambda>fs b t w. [t]), imageDims = (\<lambda>dat. (640, 320)),
     addImageThrows = (\<lambda>dat fmt x y w h. False), formatDate = (\<lambda>d. d),
     localeNow = (\<lambda>k. ''3/15/2024, 10:00:00 AM'')\<rparr>"

text \<open>The clock passes midnight between the first and the second reading.\<close>

definition tickEnv :: env where
  "tickEnv = plainEnv\<lparr>localeNow :=
     (\<lambda>k. if k = 0 then ''3/15/2024, 11:59:59 PM'' else ''3/16/2024, 12:00:00 AM'')\<rparr>"

text \<open>
  A defect whose payload is not an image (the bytes of "not an image" under the name of a
  JPEG file). In \<open>lenientEnv\<close> the \<^verbatim>\<open>Image\<close> fires \<^verbatim>\<open>onerror\<close> on it and reports width
  and height 0, every other image is 640 by 320, and \<^verbatim>\<open>doc.addImage\<close> takes every
  payload, this one too: the call names the format, and the library embeds the bytes
  without decoding them. In \<open>strictEnv\<close> \<^verbatim>\<open>doc.addImage\<close> throws on this payload.
\<close>

definition unreadableDefect :: defect where
  "unreadableDefect = \<lparr>defectId = 3, defectType = ''Mould'',
     imageData = ''data:image/jpeg;base64,bm90IGFuIGltYWdl'', imageName = ''mould.jpg'',
     description = ''Mould behind the wardrobe''\<rparr>"

definition lenientEnv :: env where
  "lenientEnv = plainEnv\<lparr>imageDims :=
     (\<lambda>dat. if dat = imageData unreadableDefect then (0, 0) else (640, 320))\<rparr>"

definition strictEnv :: env where
  "strictEnv = lenientEnv\<lparr>addImageThrows :=
     (\<lambda>dat fmt x y w h. dat = imageData unreadableDefect)\<rparr>"

text \<open>
  A wrap for a fixed-pitch font: a character is a fifth of the font size wide, and a line
  takes as many characters as fit the width.
\<close>

function chunk :: "nat \<Rightarrow> string \<Rightarrow> string list" where
  "chunk k t = (if k = 0 \<or> length t \<le> k then [t] else take k t # chunk k (drop k t))"
  by pat_completeness auto
termination
  by (relation "measure (\<lambda>(k, t). length t)") auto

declare chunk.simps [simp del]

definition wrapEnv :: env where
  "wrapEnv = plainEnv\<lparr>splitTextToSize := (\<lambda>fs b t w. chunk (nat \<lfloor>w * 5 / fs\<rfloor>) t)\<rparr>"

text \<open>A form with an address of 3250 characters and the name of the inspector.\<close>

definition longAddress :: string where
  "longAddress = replicate 3250 (CHR ''a'')"

definition longAddressForm :: form where
  "longAddressForm =
     (\<lambda>ident. if ident = ''clientAddress'' then Some longAddress
              else if ident = ''inspectorName'' then Some ''J. Doe'' else None)"

text \<open>Every image is 40 by 30 pixels, smaller than the box.\<close>

definition thumbEnv :: env where
  "thumbEnv = plainEnv\<lparr>imageDims := (\<lambda>dat. (40, 30))\<rparr>"

text \<open>Every text wraps into two lines: its first five characters and the rest.\<close>

definition twoLineEnv :: env where
  "twoLineEnv = plainEnv\<lparr>splitTextToSize := (\<lambda>fs b t w. [take 5 t, drop 5 t])\<rparr>"

definition pngDefect :: defect where
  "pngDefect = \<lparr>defectId = 1, defectType = ''Crack'',
     imageData = ''data:image/png;base64,iVBORw0KGgo='', imageName = ''crack.png'',
     description = ''Hairline crack above the door''\<rparr>"

definition jpegDefect :: defect where
  "jpegDefect = \<lparr>defectId = 2, defectType = ''Leak'',
     imageData = ''data:image/jpeg;base64,/9j/4AAQSkZJRg=='', imageName = ''leak.jpg'',
     description = ''Stain under the window''\<rparr>"

section \<open>Unfolding the model\<close>

lemmas geom_defs = pageWidth_def pageHeight_def margin_def contentWidth_def maxImgWidth_def
  maxImgHeight_def

lemmas prim_defs = drawOp_def docText_def docTextLines_def docRect_def docLine_def
  docAddImage_def docAddPage_def docSetPage_def getNumberOfPages_def advance_def

lemmas run_defs = checkNewPage_def addLine_def addTextLine_def addText_def addSectionHeader_def
  contactInfo_def contactLine_def documentHeader_def labelled_def labelledWrapped_def
  clientNameRow_def clientAddressRow_def inspectionDateRow_def inspectorRow_def
  credentialsRow_def clientDetails_def tableData_def tableRow_def inspectionDetails_def
  disclaimerLine_def disclaimerSection_def imgRatio_def scaleImage_def defectTitle_def
  headingStyle_def defectHeading_def imageFit_def imageError_def defectImage_def descLine_def
  defectDescription_def separator_def renderDefect_def defectsTitle_def defectsSection_def
  pageStamp_def timeStamp_def footerStep_def footers_def reportSections_def composeBody_def
  generatePdf_def newDoc_def getFieldValue_def orElse_def jgt_def jsub_def

lemmas env_defs = plainEnv_def tickEnv_def lenientEnv_def strictEnv_def wrapEnv_def
  thumbEnv_def emptyForm_def pngDefect_def jpegDefect_def unreadableDefect_def

text \<open>
  Evaluation in the order of the program: the argument of a bind or of a \<open>let\<close> is
  computed before the body is entered.
\<close>

lemma bind_weak_cong: "m = m' \<Longrightarrow> Option.bind m f = Option.bind m' f"
  by simp

lemma scaleImage_plain: "scaleImage 640 320 = (Fin 160, Fin 80)"
  by (simp add: scaleImage_def imgRatio_def geom_defs toDouble_def roundEven_def binade.simps)

section \<open>The page-break check\<close>

text \<open>
  C4. \<^verbatim>\<open>checkNewPage\<close> returns true exactly when the cursor plus the required space
  exceeds the page height minus the margin. Then the document has one more page, empty and
  current, the pages it had are as they were and the cursor is at the margin; everything
  else is as before. Otherwise the state is returned as it is.
\<close>

theorem checkNewPage_contract:
  "fst (checkNewPage h s) = jgt (jadd (yPos s) (Fin h)) (Fin (pageHeight - margin))
   \<and> snd (checkNewPage h s) =
       (if jgt (jadd (yPos s) (Fin h)) (Fin (pageHeight - margin))
        then s\<lparr>pages := pages s @ [[]], curPage := length (pages s) + 1, yPos := Fin margin\<rparr>
        else s)"
  by (simp add: checkNewPage_def docAddPage_def)

section \<open>Rounding to a double\<close>

lemma binade_bounds: "0 < x \<Longrightarrow> 0 < binade x \<and> binade x \<le> x \<and> x < 2 * binade x"
proof (induction x rule: binade.induct)
  case (1 x)
  show ?case
  proof (cases "2 \<le> x")
    case True
    then have "0 < binade (x / 2) \<and> binade (x / 2) \<le> x / 2 \<and> x / 2 < 2 * binade (x / 2)"
      using 1 by simp
    then show ?thesis using True by (subst (1 2 3) binade.simps) simp
  next
    case False
    show ?thesis
    proof (cases "x < 1")
      case True
      then have "0 < binade (2 * x) \<and> binade (2 * x) \<le> 2 * x \<and> 2 * x < 2 * binade (2 * x)"
        using 1 False by simp
      then show ?thesis using True False 1(3) by (subst (1 2 3) binade.simps) simp
    next
      case b: False
      then show ?thesis using False by (subst (1 2 3) binade.simps) simp
    qed
  qed
qed

lemma roundEven_err: "\<bar>of_int (roundEven q) - q\<bar> \<le> (1 / 2 :: real)"
  unfolding roundEven_def by (simp add: abs_le_iff)

lemma toDouble_err:
  assumes "0 < x"
  shows "\<bar>toDouble x - x\<bar> \<le> x / 2 ^ 53"
proof -
  define u where "u = binade x / 2 ^ 52"
  have b: "0 < binade x" "binade x \<le> x" using binade_bounds [OF assms] by simp_all
  have u: "0 < u" using b by (simp add: u_def)
  have td: "toDouble x = of_int (roundEven (x / u)) * u"
    using assms by (simp add: toDouble_def u_def)
  have "\<bar>of_int (roundEven (x / u)) * u - x\<bar> = \<bar>of_int (roundEven (x / u)) - x / u\<bar> * u"
  proof -
    have "of_int (roundEven (x / u)) * u - x = (of_int (roundEven (x / u)) - x / u) * u"
      using u by (simp add: algebra_simps)
    then show ?thesis using u by (simp add: abs_mult)
  qed
  also have "\<dots> \<le> (1 / 2) * u"
    using roundEven_err [of "x / u"] u by (intro mult_right_mono) simp_all
  also have "\<dots> = binade x / 2 ^ 53" by (simp add: u_def)
  also have "\<dots> \<le> x / 2 ^ 53" using b by (simp add: divide_right_mono)
  finally show ?thesis by (simp add: td)
qed

lemma toDouble_pos: "0 < x \<Longrightarrow> 0 < toDouble x"
proof -
  assume x: "0 < x"
  have "x / 2 ^ 53 < x" using x by (simp add: divide_less_eq)
  then show ?thesis using toDouble_err [OF x] by linarith
qed

lemma toDouble_one: "toDouble 1 = 1"
  by (simp add: toDouble_def roundEven_def binade.simps)

lemma toDouble_upper:
  assumes "0 < x"
  shows "toDouble x \<le> x * (1 + 1 / 2 ^ 53)"
proof -
  have "x * (1 + 1 / 2 ^ 53) = x + x / 2 ^ 53"
    by (simp only: distrib_left mult.right_neutral times_divide_eq_right)
  then show ?thesis using toDouble_err [OF assms] by linarith
qed

lemma toDouble_lower:
  assumes "0 < x"
  shows "x * (1 - 1 / 2 ^ 53) \<le> toDouble x"
proof -
  have "x * (1 - 1 / 2 ^ 53) = x - x / 2 ^ 53"
    by (simp only: right_diff_distrib mult.right_neutral times_divide_eq_right)
  then show ?thesis using toDouble_err [OF assms] by linarith
qed

lemma imgRatio_pos:
  "0 < w \<Longrightarrow> 0 < h \<Longrightarrow>
   imgRatio w h =
     Fin (min (toDouble (maxImgWidth / real w)) (toDouble (maxImgHeight / real h)))"
  by (simp add: imgRatio_def min_def)

lemma scaleImage_pos:
  "0 < w \<Longrightarrow> 0 < h \<Longrightarrow>
   r = min (toDouble (maxImgWidth / real w)) (toDouble (maxImgHeight / real h)) \<Longrightarrow>
   scaleImage w h = (Fin (toDouble (real w * r)), Fin (toDouble (real h * r)))"
  by (simp add: scaleImage_def imgRatio_pos)

text \<open>
  A side of the box divided by a pixel count, rounded: at most 1 when the image is not
  smaller than the box, more than 1 when it is smaller.
\<close>

lemma ratio_le_one:
  assumes "0 < k" "k \<le> n" "k \<le> 170"
  shows "toDouble (real k / real n) \<le> 1"
proof (cases "n = k")
  case True
  then show ?thesis using assms by (simp add: toDouble_one)
next
  case False
  then have n: "real k + 1 \<le> real n" using assms by linarith
  have k: "0 < real k" "real k \<le> 170" using assms by simp_all
  have "real k / real n \<le> real k / (real k + 1)"
    using n k by (intro divide_left_mono) simp_all
  also have "\<dots> \<le> 170 / 171" using k by (simp add: field_simps)
  finally have q: "real k / real n \<le> 170 / 171" .
  have p: "0 < real k / real n" using k n by simp
  have "toDouble (real k / real n) \<le> real k / real n * (1 + 1 / 2 ^ 53)"
    by (rule toDouble_upper [OF p])
  also have "\<dots> \<le> 170 / 171 * (1 + 1 / 2 ^ 53)"
    by (rule mult_right_mono [OF q]) simp
  also have "\<dots> \<le> 1" by simp
  finally show ?thesis .
qed

lemma ratio_gt_one:
  assumes "0 < n" "n < k" "k \<le> 170"
  shows "1 < toDouble (real k / real n)"
proof -
  have n: "0 < real n" "real n \<le> real k - 1" using assms by auto
  have k: "1 < real k" "real k \<le> 170" using assms by auto
  have "170 / 169 \<le> real k / (real k - 1)" using k by (simp add: field_simps)
  also have "\<dots> \<le> real k / real n"
    using n k by (intro divide_left_mono) simp_all
  finally have q: "170 / 169 \<le> real k / real n" .
  have p: "0 < real k / real n" using k n by simp
  have "1 < 170 / 169 * (1 - 1 / 2 ^ 53 :: real)" by simp
  also have "\<dots> \<le> real k / real n * (1 - 1 / 2 ^ 53)"
    by (rule mult_right_mono [OF q]) simp
  also have "\<dots> \<le> toDouble (real k / real n)"
    by (rule toDouble_lower [OF p])
  finally show ?thesis .
qed

lemma ratio_upscales:
  assumes "0 < n" "0 < k" "k \<le> 170"
  shows "(1 < toDouble (real k / real n)) = (real n < real k)"
  using ratio_le_one [of k n] ratio_gt_one [of n k] assms
  by (cases "n < k") simp_all

lemma scaling_facts:
  assumes w: "0 < w" and h: "0 < h"
    and r: "r = min (toDouble (maxImgWidth / real w)) (toDouble (maxImgHeight / real h))"
  shows "0 < r"
    and "toDouble (real w * r) \<le> maxImgWidth * (1 + 1 / 2 ^ 53) ^ 2"
    and "toDouble (real h * r) \<le> maxImgHeight * (1 + 1 / 2 ^ 53) ^ 2"
    and "maxImgWidth * (1 - 1 / 2 ^ 53) ^ 2 \<le> toDouble (real w * r)
         \<or> maxImgHeight * (1 - 1 / 2 ^ 53) ^ 2 \<le> toDouble (real h * r)"
    and "\<bar>toDouble (real w * r) * real h - toDouble (real h * r) * real w\<bar>
           \<le> real w * real h * r / 2 ^ 52"
    and "(1 < r) = (real w < maxImgWidth \<and> real h < maxImgHeight)"
proof -
  define a where "a = toDouble (maxImgWidth / real w)"
  define b where "b = toDouble (maxImgHeight / real h)"
  have rw: "0 < real w" and rh: "0 < real h" using w h by simp_all
  have qa: "0 < maxImgWidth / real w" and qb: "0 < maxImgHeight / real h"
    using rw rh by (simp_all add: geom_defs)
  have a: "0 < a" "a \<le> maxImgWidth / real w * (1 + 1 / 2 ^ 53)"
      "maxImgWidth / real w * (1 - 1 / 2 ^ 53) \<le> a"
    unfolding a_def using toDouble_pos [OF qa] toDouble_upper [OF qa] toDouble_lower [OF qa]
    by simp_all
  have b: "0 < b" "b \<le> maxImgHeight / real h * (1 + 1 / 2 ^ 53)"
      "maxImgHeight / real h * (1 - 1 / 2 ^ 53) \<le> b"
    unfolding b_def using toDouble_pos [OF qb] toDouble_upper [OF qb] toDouble_lower [OF qb]
    by simp_all
  have r': "r = min a b" by (simp add: r a_def b_def)
  show r0: "0 < r" using a b by (simp add: r')
  have pw: "0 < real w * r" and ph: "0 < real h * r" using rw rh r0 by simp_all
  have wa: "real w * a \<le> maxImgWidth * (1 + 1 / 2 ^ 53)"
  proof -
    have "real w * a \<le> real w * (maxImgWidth / real w * (1 + 1 / 2 ^ 53))"
      using a rw by (intro mult_left_mono) simp_all
    then show ?thesis using rw by simp
  qed
  have hb: "real h * b \<le> maxImgHeight * (1 + 1 / 2 ^ 53)"
  proof -
    have "real h * b \<le> real h * (maxImgHeight / real h * (1 + 1 / 2 ^ 53))"
      using b rh by (intro mult_left_mono) simp_all
    then show ?thesis using rh by simp
  qed
  have wa': "maxImgWidth * (1 - 1 / 2 ^ 53) \<le> real w * a"
  proof -
    have "real w * (maxImgWidth / real w * (1 - 1 / 2 ^ 53)) \<le> real w * a"
      using a rw by (intro mult_left_mono) simp_all
    then show ?thesis using rw by simp
  qed
  have hb': "maxImgHeight * (1 - 1 / 2 ^ 53) \<le> real h * b"
  proof -
    have "real h * (maxImgHeight / real h * (1 - 1 / 2 ^ 53)) \<le> real h * b"
      using b rh by (intro mult_left_mono) simp_all
    then show ?thesis using rh by simp
  qed
  show "toDouble (real w * r) \<le> maxImgWidth * (1 + 1 / 2 ^ 53) ^ 2"
  proof -
    have "real w * r \<le> real w * a" using rw by (simp add: r')
    then have le: "real w * r \<le> maxImgWidth * (1 + 1 / 2 ^ 53)" using wa by linarith
    have "toDouble (real w * r) \<le> real w * r * (1 + 1 / 2 ^ 53)"
      by (rule toDouble_upper [OF pw])
    also have "\<dots> \<le> maxImgWidth * (1 + 1 / 2 ^ 53) * (1 + 1 / 2 ^ 53)"
      by (rule mult_right_mono [OF le]) simp
    also have "\<dots> = maxImgWidth * (1 + 1 / 2 ^ 53) ^ 2"
      by (simp only: power2_eq_square mult.assoc)
    finally show ?thesis .
  qed
  show "toDouble (real h * r) \<le> maxImgHeight * (1 + 1 / 2 ^ 53) ^ 2"
  proof -
    have "real h * r \<le> real h * b" using rh by (simp add: r')
    then have le: "real h * r \<le> maxImgHeight * (1 + 1 / 2 ^ 53)" using hb by linarith
    have "toDouble (real h * r) \<le> real h * r * (1 + 1 / 2 ^ 53)"
      by (rule toDouble_upper [OF ph])
    also have "\<dots> \<le> maxImgHeight * (1 + 1 / 2 ^ 53) * (1 + 1 / 2 ^ 53)"
      by (rule mult_right_mono [OF le]) simp
    also have "\<dots> = maxImgHeight * (1 + 1 / 2 ^ 53) ^ 2"
      by (simp only: power2_eq_square mult.assoc)
    finally show ?thesis .
  qed
  show "maxImgWidth * (1 - 1 / 2 ^ 53) ^ 2 \<le> toDouble (real w * r)
         \<or> maxImgHeight * (1 - 1 / 2 ^ 53) ^ 2 \<le> toDouble (real h * r)"
  proof (cases "a \<le> b")
    case True
    then have "r = a" by (simp add: r')
    then have le: "maxImgWidth * (1 - 1 / 2 ^ 53) \<le> real w * r" using wa' by simp
    have "maxImgWidth * (1 - 1 / 2 ^ 53) ^ 2 = maxImgWidth * (1 - 1 / 2 ^ 53) * (1 - 1 / 2 ^ 53)"
      by (simp only: power2_eq_square mult.assoc)
    also have "\<dots> \<le> real w * r * (1 - 1 / 2 ^ 53)"
      by (rule mult_right_mono [OF le]) simp
    also have "\<dots> \<le> toDouble (real w * r)"
      by (rule toDouble_lower [OF pw])
    finally show ?thesis by (rule disjI1)
  next
    case False
    then have "r = b" by (simp add: r')
    then have le: "maxImgHeight * (1 - 1 / 2 ^ 53) \<le> real h * r" using hb' by simp
    have "maxImgHeight * (1 - 1 / 2 ^ 53) ^ 2 = maxImgHeight * (1 - 1 / 2 ^ 53) * (1 - 1 / 2 ^ 53)"
      by (simp only: power2_eq_square mult.assoc)
    also have "\<dots> \<le> real h * r * (1 - 1 / 2 ^ 53)"
      by (rule mult_right_mono [OF le]) simp
    also have "\<dots> \<le> toDouble (real h * r)"
      by (rule toDouble_lower [OF ph])
    finally show ?thesis by (rule disjI2)
  qed
  show "\<bar>toDouble (real w * r) * real h - toDouble (real h * r) * real w\<bar>
           \<le> real w * real h * r / 2 ^ 52"
  proof -
    have e1: "\<bar>toDouble (real w * r) - real w * r\<bar> \<le> real w * r / 2 ^ 53"
      by (rule toDouble_err [OF pw])
    have e2: "\<bar>toDouble (real h * r) - real h * r\<bar> \<le> real h * r / 2 ^ 53"
      by (rule toDouble_err [OF ph])
    have "toDouble (real w * r) * real h - toDouble (real h * r) * real w
        = (toDouble (real w * r) - real w * r) * real h
          - (toDouble (real h * r) - real h * r) * real w"
      by (simp add: algebra_simps)
    then have "\<bar>toDouble (real w * r) * real h - toDouble (real h * r) * real w\<bar>
        \<le> \<bar>toDouble (real w * r) - real w * r\<bar> * real h
          + \<bar>toDouble (real h * r) - real h * r\<bar> * real w"
      using abs_triangle_ineq4 [of "(toDouble (real w * r) - real w * r) * real h"
          "(toDouble (real h * r) - real h * r) * real w"]
      by (simp add: abs_mult)
    also have "\<dots> \<le> real w * r / 2 ^ 53 * real h + real h * r / 2 ^ 53 * real w"
      using e1 e2 rw rh by (intro add_mono mult_right_mono) simp_all
    also have "\<dots> = real w * real h * r / 2 ^ 52" by simp
    finally show ?thesis .
  qed
  show "(1 < r) = (real w < maxImgWidth \<and> real h < maxImgHeight)"
  proof -
    have "maxImgWidth = real 170" "maxImgHeight = real 80" by (simp_all add: geom_defs)
    then have "(1 < a) = (real w < maxImgWidth)" "(1 < b) = (real h < maxImgHeight)"
      unfolding a_def b_def
      using ratio_upscales [of w 170] ratio_upscales [of h 80] w h by simp_all
    then show ?thesis by (simp add: r')
  qed
qed

section \<open>Computations that may throw\<close>

lemma after_Some [simp]: "after (Some x) P = P x"
  by (simp add: after_def)

lemma after_None [simp]: "after None P"
  by (simp add: after_def)

lemma afterD: "after m P \<Longrightarrow> m = Some x \<Longrightarrow> P x"
  by (simp add: after_def)

lemma after_bind:
  "after m P \<Longrightarrow> (\<And>x. P x \<Longrightarrow> after (f x) Q) \<Longrightarrow> after (Option.bind m f) Q"
  by (cases m) simp_all

lemma after_forEach:
  assumes "\<And>u x. P u \<Longrightarrow> after (g u x) P" "P t"
  shows "after (forEach g t xs) P"
  using assms(2)
proof (induction xs arbitrary: t)
  case Nil
  then show ?case by simp
next
  case (Cons x xs)
  show ?case unfolding forEach.simps
    by (rule after_bind [OF assms(1) [OF Cons.prems]]) (rule Cons.IH)
qed

section \<open>The composition only appends\<close>

lemma update_last:
  "ps \<noteq> [] \<Longrightarrow> ps[length ps - Suc 0 := ps ! (length ps - Suc 0) @ [op]] = butlast ps @ [last ps @ [op]]"
  by (induction ps rule: rev_induct) (simp_all add: nth_append)

lemma drawOp_wf: "wfDoc s \<Longrightarrow> pages (drawOp op s) = onLastPage (pages s) [op]"
  by (simp add: drawOp_def wfDoc_def update_last onLastPage_def)

lemma grows_refl: "wfDoc s \<Longrightarrow> grows s s"
  unfolding grows_def wfDoc_def
  by (intro conjI exI[of _ "[]"]) simp_all

lemma grows_drawOp:
  assumes "grows s t" "bodyOp op"
  shows "grows s (drawOp op t)"
proof -
  from assms(1) obtain ops more where wf: "wfDoc t"
    and pg: "pages t = butlast (pages s) @ (last (pages s) @ ops) # more"
    and a: "list_all bodyOp ops" and b: "list_all (list_all bodyOp) more"
    unfolding grows_def by blast
  have wf': "wfDoc (drawOp op t)" using wf by (simp add: wfDoc_def drawOp_def)
  show ?thesis
  proof (cases "more = []")
    case True
    then have "pages (drawOp op t) = butlast (pages s) @ (last (pages s) @ (ops @ [op])) # []"
      using pg wf by (simp add: drawOp_wf onLastPage_def butlast_append)
    moreover have "list_all bodyOp (ops @ [op])" using a assms(2) by simp
    ultimately show ?thesis unfolding grows_def using wf' by (intro conjI exI[of _ "ops @ [op]"] exI[of _ "[]"]) simp_all
  next
    case False
    then have "pages (drawOp op t) =
        butlast (pages s) @ (last (pages s) @ ops) # (butlast more @ [last more @ [op]])"
      using pg wf by (simp add: drawOp_wf onLastPage_def butlast_append)
    moreover have "list_all (list_all bodyOp) (butlast more @ [last more @ [op]])"
    proof -
      have "list_all (list_all bodyOp) (butlast more @ [last more])" using b False by simp
      then show ?thesis using assms(2) by simp
    qed
    ultimately show ?thesis unfolding grows_def using wf' a by blast
  qed
qed

lemma grows_addPage [simp]:
  assumes "grows s t"
  shows "grows s (docAddPage t)"
proof -
  from assms obtain ops more where wf: "wfDoc t"
    and pg: "pages t = butlast (pages s) @ (last (pages s) @ ops) # more"
    and a: "list_all bodyOp ops" and b: "list_all (list_all bodyOp) more"
    unfolding grows_def by blast
  have "pages (docAddPage t) = butlast (pages s) @ (last (pages s) @ ops) # (more @ [[]])"
    using pg by (simp add: docAddPage_def)
  moreover have "list_all (list_all bodyOp) (more @ [[]])" using b by simp
  moreover have "wfDoc (docAddPage t)" by (simp add: wfDoc_def docAddPage_def)
  ultimately show ?thesis unfolding grows_def using a by blast
qed

lemma grows_fields [simp]:
  "grows s (t\<lparr>fontSize := a\<rparr>) = grows s t"
  "grows s (t\<lparr>fontBold := b\<rparr>) = grows s t"
  "grows s (t\<lparr>textColor := c\<rparr>) = grows s t"
  "grows s (t\<lparr>fillColor := c\<rparr>) = grows s t"
  "grows s (t\<lparr>drawColor := c\<rparr>) = grows s t"
  "grows s (t\<lparr>lineWidth := w\<rparr>) = grows s t"
  "grows s (t\<lparr>yPos := y\<rparr>) = grows s t"
  by (simp_all add: grows_def wfDoc_def)

lemma grows_advance [simp]: "grows s (advance k t) = grows s t"
  by (simp add: advance_def)

lemma grows_headingStyle [simp]: "grows s (headingStyle t) = grows s t"
  by (simp add: headingStyle_def Let_def)

lemma grows_checkNewPage [simp]: "grows s t \<Longrightarrow> grows s (snd (checkNewPage k t))"
  by (simp add: checkNewPage_def)

lemma bodyOp_simps [simp]:
  "bodyOp (TextOp t x y AlignLeft fs b c)"
  "bodyOp (TextLinesOp ls x y fs b c)"
  "bodyOp (RectOp x y w h c)"
  "bodyOp (LineOp x1 y1 x2 y2 c lw)"
  "bodyOp (ImageOp dat ''JPEG'' x y iw ih)"
  by (simp_all add: bodyOp_def)

lemma grows_bind:
  "after m (grows s) \<Longrightarrow> (\<And>x. grows s x \<Longrightarrow> after (f x) (grows s))
   \<Longrightarrow> after (Option.bind m f) (grows s)"
  by (rule after_bind)

lemma grows_forEach:
  "(\<And>u x. grows s u \<Longrightarrow> after (g u x) (grows s)) \<Longrightarrow> grows s t
   \<Longrightarrow> after (forEach g t xs) (grows s)"
  by (rule after_forEach)

lemma grows_docText: "grows s t \<Longrightarrow> after (docText txt x y AlignLeft t) (grows s)"
  by (simp add: docText_def grows_drawOp)

lemma grows_docTextLines: "grows s t \<Longrightarrow> after (docTextLines ls x y t) (grows s)"
  by (simp add: docTextLines_def grows_drawOp)

lemma grows_docRect: "grows s t \<Longrightarrow> after (docRect x y w h t) (grows s)"
  by (simp add: docRect_def grows_drawOp)

lemma grows_docLine: "grows s t \<Longrightarrow> after (docLine x1 y1 x2 y2 t) (grows s)"
  by (simp add: docLine_def grows_drawOp)

lemma grows_docAddImage:
  "grows s t \<Longrightarrow> after (docAddImage e dat ''JPEG'' x y w h t) (grows s)"
  by (simp add: docAddImage_def grows_drawOp)

lemmas grows_prims = grows_bind grows_forEach grows_docText grows_docTextLines grows_docRect
  grows_docLine grows_docAddImage

lemma grows_addLine: "grows s t \<Longrightarrow> after (addLine t) (grows s)"
  unfolding addLine_def Let_def by (auto intro!: grows_prims)

lemma grows_addSectionHeader: "grows s t \<Longrightarrow> after (addSectionHeader title t) (grows s)"
  unfolding addSectionHeader_def Let_def by (auto intro!: grows_prims)

lemma grows_labelled: "grows s t \<Longrightarrow> after (labelled l v t) (grows s)"
  unfolding labelled_def Let_def by (auto intro!: grows_prims)

lemma grows_labelledWrapped: "grows s t \<Longrightarrow> after (labelledWrapped e l v t) (grows s)"
  unfolding labelledWrapped_def Let_def by (auto intro!: grows_prims)

lemma grows_clientDetails: "grows s t \<Longrightarrow> after (clientDetails e f t) (grows s)"
  unfolding clientDetails_def clientNameRow_def clientAddressRow_def inspectionDateRow_def
    inspectorRow_def credentialsRow_def Let_def
  by (auto intro!: grows_prims grows_addSectionHeader grows_labelled grows_labelledWrapped)

lemma grows_tableRow: "grows s t \<Longrightarrow> after (tableRow t ir) (grows s)"
  unfolding tableRow_def Let_def by (auto intro!: grows_prims)

lemma grows_inspectionDetails: "grows s t \<Longrightarrow> after (inspectionDetails f t) (grows s)"
  unfolding inspectionDetails_def Let_def
  by (auto intro!: grows_prims grows_addSectionHeader grows_tableRow)

lemma grows_disclaimerLine: "grows s t \<Longrightarrow> after (disclaimerLine t l) (grows s)"
  unfolding disclaimerLine_def Let_def by (auto intro!: grows_prims)

lemma grows_disclaimerSection: "grows s t \<Longrightarrow> after (disclaimerSection e f t) (grows s)"
  unfolding disclaimerSection_def Let_def
  by (auto intro!: grows_prims grows_addSectionHeader grows_disclaimerLine)

lemma grows_defectHeading: "grows s t \<Longrightarrow> after (defectHeading title t) (grows s)"
  unfolding defectHeading_def Let_def by (auto intro!: grows_prims)

lemma grows_imageFit: "grows s t \<Longrightarrow> after (imageFit i d h t) (grows s)"
  unfolding imageFit_def by (auto intro!: grows_prims grows_defectHeading)

lemma grows_imageError: "grows s t \<Longrightarrow> after (imageError t) (grows s)"
  unfolding imageError_def Let_def by (auto intro!: grows_prims)

lemma grows_defectImage:
  assumes "grows s t"
  shows "after (defectImage e i d t) (grows s)"
proof -
  let ?h = "snd (scaleImage (fst (imageDims e (imageData d))) (snd (imageDims e (imageData d))))"
  let ?w = "fst (scaleImage (fst (imageDims e (imageData d))) (snd (imageDims e (imageData d))))"
  show ?thesis
  proof (cases "imageFit i d ?h t")
    case None
    then show ?thesis
      using assms by (simp add: defectImage_def Let_def grows_imageError)
  next
    case (Some s1)
    then have s1: "grows s s1" using grows_imageFit [OF assms, of i d ?h] by simp
    show ?thesis
    proof (cases "docAddImage e (imageData d) ''JPEG'' margin (yPos s1) ?w ?h s1")
      case None
      then show ?thesis using Some s1 by (simp add: defectImage_def Let_def grows_imageError)
    next
      case (Some s2)
      then have "grows s s2"
        using grows_docAddImage [OF s1, of e "imageData d" margin "yPos s1" ?w ?h]
        by simp
      then show ?thesis
        using Some \<open>imageFit i d ?h t = Some s1\<close> by (simp add: defectImage_def Let_def)
    qed
  qed
qed

lemma grows_descLine: "grows s t \<Longrightarrow> after (descLine t l) (grows s)"
  unfolding descLine_def Let_def by (auto intro!: grows_prims)

lemma grows_defectDescription: "grows s t \<Longrightarrow> after (defectDescription e d t) (grows s)"
  unfolding defectDescription_def Let_def by (auto intro!: grows_prims grows_descLine)

lemma grows_separator: "grows s t \<Longrightarrow> after (separator t) (grows s)"
  unfolding separator_def Let_def by (auto intro!: grows_prims)

lemma grows_renderDefect: "grows s t \<Longrightarrow> after (renderDefect e n i d t) (grows s)"
  unfolding renderDefect_def Let_def
  by (auto intro!: grows_prims grows_defectHeading grows_defectImage grows_defectDescription
      grows_separator)

lemma grows_defectsLoop: "grows s t \<Longrightarrow> after (defectsLoop e n i ds t) (grows s)"
proof (induction ds arbitrary: i t)
  case Nil
  then show ?case by simp
next
  case (Cons d ds)
  show ?case unfolding defectsLoop.simps
    by (rule grows_bind [OF grows_renderDefect [OF Cons.prems]]) (rule Cons.IH)
qed

lemma grows_defectsSection: "grows s t \<Longrightarrow> after (defectsSection e ds t) (grows s)"
  unfolding defectsSection_def Let_def
  by (auto intro!: grows_prims grows_addSectionHeader grows_defectsLoop)

lemma grows_documentHeader: "after (documentHeader f newDoc) (grows newDoc)"
  by (cases "contactInfo f = []")
     (simp_all add: grows_def wfDoc_def documentHeader_def contactLine_def addLine_def newDoc_def
        prim_defs geom_defs bodyOp_def Let_def cong: let_weak_cong bind_weak_cong)

lemma grows_reportSections: "after (reportSections e f) (grows newDoc)"
  unfolding reportSections_def
  by (intro grows_bind grows_documentHeader grows_clientDetails grows_inspectionDetails
      grows_disclaimerSection)

lemma grows_composeBody: "after (composeBody e f ds) (grows newDoc)"
  unfolding composeBody_def
  by (intro grows_bind grows_reportSections grows_defectsSection)

lemma grows_wfDoc: "grows s t \<Longrightarrow> wfDoc t"
  by (simp add: grows_def)

lemma grows_newDoc_ops: "grows newDoc t \<Longrightarrow> list_all (list_all bodyOp) (pages t)"
  by (auto simp: grows_def newDoc_def)

section \<open>The footer loop\<close>

lemma footerStep_Some:
  "0 < i \<Longrightarrow>
   \<exists>t. footerStep e n s i = Some t
     \<and> pages t = (pages s)[i - 1 := pages s ! (i - 1) @ footerOf e n (i - 1)]"
  by (cases "i - 1 < length (pages s)")
     (simp_all add: footerStep_def footerOf_def prim_defs Let_def list_update_beyond not_less)

lemma forEach_snoc:
  "forEach g s (xs @ [x]) = Option.bind (forEach g s xs) (\<lambda>t. g t x)"
  by (induction xs arbitrary: s) (simp_all split: Option.bind_split)

lemma footerLoop:
  "k \<le> length (pages s) \<Longrightarrow>
   \<exists>t. forEach (footerStep e n) s [1..<Suc k] = Some t
     \<and> pages t =
       map (\<lambda>(j, p). p @ footerOf e n j) (enumerate 0 (take k (pages s))) @ drop k (pages s)"
proof (induction k)
  case 0
  then show ?case by simp
next
  case (Suc k)
  define A where "A = map (\<lambda>(j, p). p @ footerOf e n j) (enumerate 0 (take k (pages s)))"
  have k: "k < length (pages s)" using Suc.prems by simp
  obtain t where t: "forEach (footerStep e n) s [1..<Suc k] = Some t"
    and pt: "pages t = A @ drop k (pages s)"
    using Suc.IH k unfolding A_def by auto
  have lenA: "length A = k" using k by (simp add: A_def)
  obtain u where u: "footerStep e n t (Suc k) = Some u"
    and pu: "pages u = (pages t)[k := pages t ! k @ footerOf e n k]"
    using footerStep_Some [of "Suc k" e n t] by auto
  have "[1..<Suc (Suc k)] = [1..<Suc k] @ [Suc k]" by simp
  then have "forEach (footerStep e n) s [1..<Suc (Suc k)] = Some u"
    using t u by (simp only: forEach_snoc) simp
  moreover have "pages u = A @ (pages s ! k @ footerOf e n k) # drop (Suc k) (pages s)"
    using k lenA by (simp add: pu pt list_update_append nth_append Cons_nth_drop_Suc [symmetric])
  moreover have "A @ (pages s ! k @ footerOf e n k) # drop (Suc k) (pages s)
      = map (\<lambda>(j, p). p @ footerOf e n j) (enumerate 0 (take (Suc k) (pages s)))
        @ drop (Suc k) (pages s)"
    using k by (simp add: A_def take_Suc_conv_app_nth enumerate_append_eq)
  ultimately show ?case by simp
qed

lemma footers_Some:
  "\<exists>t. footers e s = Some t
     \<and> pages t = map (\<lambda>(j, p). p @ footerOf e (length (pages s)) j) (enumerate 0 (pages s))"
  using footerLoop [of "length (pages s)" s e "length (pages s)"]
  by (simp add: footers_def getNumberOfPages_def Let_def)

lemma filter_footerOf [simp]: "filter footerOp (footerOf e n k) = footerOf e n k"
  by (simp add: footerOf_def)

lemma filter_bodyOps: "list_all bodyOp ops \<Longrightarrow> filter footerOp ops = []"
  by (induction ops) (simp_all add: bodyOp_def)

section \<open>A run with one defect\<close>

text \<open>
  The pages of the run on the empty form with one defect, the clock passing midnight
  between the stamping of page 1 and of page 2.
\<close>

lemma run_tick:
  "map_option pages (generatePdf tickEnv emptyForm [pngDefect]) = Some
     [[TextOp ''Inspection Company'' 105 (Fin 20) AlignCenter 20 True (0, 0, 0),
       TextOp ''Home Defect Inspection Report'' 105 (Fin 35) AlignCenter 16 True (0, 0, 0),
       LineOp 20 (Fin 45) 190 (Fin 45) (200, 200, 200) (1 / 2),
       RectOp 20 (Fin 50) 170 10 (240, 240, 240),
       TextOp ''Property & Client Details'' 23 (Fin 57) AlignLeft 12 True (30, 30, 30),
       RectOp 20 (Fin 72) 170 10 (240, 240, 240),
       TextOp ''Inspection Details'' 23 (Fin 79) AlignLeft 12 True (30, 30, 30),
       RectOp 20 (Fin 85) 170 8 (248, 248, 248),
       TextOp ''Attendance'' 22 (Fin 89) AlignLeft 10 True (0, 0, 0),
       TextOp ''N/A'' 105 (Fin 89) AlignLeft 10 False (0, 0, 0),
       TextOp ''Occupancy'' 22 (Fin 97) AlignLeft 10 True (0, 0, 0),
       TextOp ''N/A'' 105 (Fin 97) AlignLeft 10 False (0, 0, 0),
       RectOp 20 (Fin 101) 170 8 (248, 248, 248),
       TextOp ''Type of Building'' 22 (Fin 105) AlignLeft 10 True (0, 0, 0),
       TextOp ''N/A'' 105 (Fin 105) AlignLeft 10 False (0, 0, 0),
       TextOp ''Weather Condition'' 22 (Fin 113) AlignLeft 10 True (0, 0, 0),
       TextOp ''N/A'' 105 (Fin 113) AlignLeft 10 False (0, 0, 0),
       RectOp 20 (Fin 126) 170 10 (240, 240, 240),
       TextOp ''General Disclaimer'' 23 (Fin 133) AlignLeft 12 True (30, 30, 30),
       TextOp ''Page 1 of 2'' 105 (Fin 287) AlignCenter 8 False (150, 150, 150),
       TextOp ''Report generated: 3/15/2024, 11:59:59 PM'' 105 (Fin 291) AlignCenter 8 False
         (150, 150, 150)],
      [RectOp 20 (Fin 20) 170 10 (240, 240, 240),
       TextOp ''Identified Defects (1 Total)'' 23 (Fin 27) AlignLeft 12 True (30, 30, 30),
       TextOp ''Defect #1: Crack'' 20 (Fin 37) AlignLeft 11 True (44, 82, 130),
       ImageOp ''data:image/png;base64,iVBORw0KGgo='' ''JPEG'' 20 (Fin 45) (Fin 160) (Fin 80),
       TextOp ''Hairline crack above the door'' 20 (Fin 130) AlignLeft 10 False (0, 0, 0),
       TextOp ''Page 2 of 2'' 105 (Fin 287) AlignCenter 8 False (150, 150, 150),
       TextOp ''Report generated: 3/16/2024, 12:00:00 AM'' 105 (Fin 291) AlignCenter 8 False
         (150, 150, 150)]]"
  by (simp add: run_defs prim_defs geom_defs env_defs Let_def showNat.simps digitChar_def
      upt_conv_Cons scaleImage_plain del: scaleImage_def imgRatio_def
      cong: let_weak_cong bind_weak_cong)

section \<open>Footers\<close>

text \<open>
  C1, as the code has it. The footer loop never throws: once the sections are composed,
  the run produces a document, with the pages that were composed. In it the centred text
  on the two footer lines of the page at position \<open>i\<close> (counted from 0) is exactly the
  pair \<open>footerOf\<close>: one stamp "Page \<open>i + 1\<close> of \<open>N\<close>", \<open>N\<close> being the number of pages, and
  one line "Report generated: " followed by the reading of the clock made while that page
  is stamped. The clock is read once per page, so the pages carry the same timestamp
  exactly when these readings print alike.
\<close>

theorem footer_on_every_page:
  assumes "composeBody e f ds = Some b"
  shows "\<exists>s. generatePdf e f ds = Some s \<and> length (pages s) = length (pages b)
     \<and> (\<forall>i<length (pages s).
           filter footerOp (pages s ! i) = footerOf e (length (pages s)) i)"
proof -
  obtain s where fs: "footers e b = Some s"
    and ps: "pages s = map (\<lambda>(j, p). p @ footerOf e (length (pages b)) j) (enumerate 0 (pages b))"
    using footers_Some [of e b] by blast
  have g: "generatePdf e f ds = Some s" by (simp add: generatePdf_def assms fs)
  have len: "length (pages s) = length (pages b)" by (simp add: ps)
  have "grows newDoc b" using grows_composeBody [of e f ds] assms by simp
  then have ops: "list_all (list_all bodyOp) (pages b)" by (rule grows_newDoc_ops)
  have "filter footerOp (pages s ! i) = footerOf e (length (pages s)) i"
    if i: "i < length (pages s)" for i
  proof -
    have i': "i < length (pages b)" using i len by simp
    have "list_all bodyOp (pages b ! i)" using ops i' by (simp add: list_all_length)
    then have "filter footerOp (pages b ! i) = []" by (rule filter_bodyOps)
    then show ?thesis using i' by (simp add: ps nth_enumerate_eq)
  qed
  then show ?thesis using g len by blast
qed

theorem footer_on_every_page_witness:
  "map_option (\<lambda>b. length (pages b)) (composeBody tickEnv emptyForm [pngDefect]) = Some 2
   \<and> map_option (\<lambda>s. length (pages s)) (generatePdf tickEnv emptyForm [pngDefect]) = Some 2
   \<and> map_option (\<lambda>s. filter footerOp (pages s ! 1)) (generatePdf tickEnv emptyForm [pngDefect]) =
       Some [TextOp ''Page 2 of 2'' (pageWidth / 2) (Fin (pageHeight - 10)) AlignCenter 8 False
          (150, 150, 150),
        TextOp ''Report generated: 3/16/2024, 12:00:00 AM'' (pageWidth / 2)
          (Fin (pageHeight - 6)) AlignCenter 8 False (150, 150, 150)]"
proof -
  have m: "map_option (\<lambda>b. length (pages b)) (composeBody tickEnv emptyForm [pngDefect]) = Some 2"
    by (simp add: run_defs prim_defs geom_defs env_defs Let_def showNat.simps digitChar_def
        scaleImage_plain del: scaleImage_def imgRatio_def cong: let_weak_cong bind_weak_cong)
  then obtain b where b: "composeBody tickEnv emptyForm [pngDefect] = Some b"
    and lb: "length (pages b) = 2"
    by auto
  obtain s where s: "generatePdf tickEnv emptyForm [pngDefect] = Some s"
    and n: "length (pages s) = length (pages b)"
    and th: "\<forall>i<length (pages s).
           filter footerOp (pages s ! i) = footerOf tickEnv (length (pages s)) i"
    using footer_on_every_page [OF b] by blast
  have n2: "length (pages s) = 2" using n lb by simp
  have "filter footerOp (pages s ! 1) = footerOf tickEnv 2 1"
    using th n2 by simp
  moreover have "footerOf tickEnv 2 1 =
      [TextOp ''Page 2 of 2'' (pageWidth / 2) (Fin (pageHeight - 10)) AlignCenter 8 False
         (150, 150, 150),
       TextOp ''Report generated: 3/16/2024, 12:00:00 AM'' (pageWidth / 2)
         (Fin (pageHeight - 6)) AlignCenter 8 False (150, 150, 150)]"
    by (simp add: footerOf_def pageStamp_def timeStamp_def tickEnv_def plainEnv_def
        showNat.simps digitChar_def)
  ultimately show ?thesis using n2 lb by (simp add: s b)
qed

text \<open>
  The claim as the specification words it fails: when the clock passes midnight between
  two rounds of the footer loop, page 1 and page 2 end with different timestamp lines.
\<close>

theorem footer_timestamp_differs:
  "map_option (\<lambda>s. (last (pages s ! 0), last (pages s ! 1)))
     (generatePdf tickEnv emptyForm [pngDefect]) =
   Some (TextOp ''Report generated: 3/15/2024, 11:59:59 PM'' 105 (Fin 291) AlignCenter 8 False
           (150, 150, 150),
         TextOp ''Report generated: 3/16/2024, 12:00:00 AM'' 105 (Fin 291) AlignCenter 8 False
           (150, 150, 150))"
proof -
  obtain s where s: "generatePdf tickEnv emptyForm [pngDefect] = Some s"
    using run_tick by (cases "generatePdf tickEnv emptyForm [pngDefect]") simp_all
  show ?thesis using run_tick by (simp add: s)
qed

section \<open>Runs that return\<close>

lemma yields_Some [simp]: "yields (Some x) P = P x"
  by (simp add: yields_def)

lemma yields_None [simp]: "\<not> yields None P"
  by (simp add: yields_def)

lemma yieldsD: "yields m P \<Longrightarrow> \<exists>x. m = Some x \<and> P x"
  by (cases m) simp_all

lemma yields_bind:
  "yields m P \<Longrightarrow> (\<And>x. P x \<Longrightarrow> yields (f x) Q) \<Longrightarrow> yields (Option.bind m f) Q"
  by (cases m) simp_all

lemma yields_forEach:
  assumes "\<And>u x. P u \<Longrightarrow> yields (g u x) P" "P t"
  shows "yields (forEach g t xs) P"
  using assms(2)
proof (induction xs arbitrary: t)
  case Nil
  then show ?case by simp
next
  case (Cons x xs)
  show ?case unfolding forEach.simps
    by (rule yields_bind [OF assms(1) [OF Cons.prems]]) (rule Cons.IH)
qed

lemma jadd_NaN [simp]: "(jadd a (Fin k) = NaN) = (a = NaN)"
  by (cases a) simp_all

lemma jsub_NaN [simp]: "(jsub a (Fin k) = NaN) = (a = NaN)"
  by (simp add: jsub_def)

lemma wfDoc_fields [simp]:
  "wfDoc (s\<lparr>fontSize := a\<rparr>) = wfDoc s"
  "wfDoc (s\<lparr>fontBold := b\<rparr>) = wfDoc s"
  "wfDoc (s\<lparr>textColor := c\<rparr>) = wfDoc s"
  "wfDoc (s\<lparr>fillColor := c\<rparr>) = wfDoc s"
  "wfDoc (s\<lparr>drawColor := c\<rparr>) = wfDoc s"
  "wfDoc (s\<lparr>lineWidth := w\<rparr>) = wfDoc s"
  "wfDoc (s\<lparr>yPos := y\<rparr>) = wfDoc s"
  "wfDoc (advance k s) = wfDoc s"
  "wfDoc (headingStyle s) = wfDoc s"
  by (simp_all add: wfDoc_def advance_def headingStyle_def Let_def)

lemma wfDoc_drawOp [simp]: "wfDoc s \<Longrightarrow> wfDoc (drawOp op s)"
  by (simp add: wfDoc_def drawOp_def)

lemma wfDoc_addPage [simp]: "wfDoc (docAddPage s)"
  by (simp add: wfDoc_def docAddPage_def)

lemma wfDoc_checkNewPage [simp]: "wfDoc s \<Longrightarrow> wfDoc (snd (checkNewPage k s))"
  by (simp add: checkNewPage_def)

lemma yPos_simps [simp]:
  "yPos (advance k s) = jadd (yPos s) (Fin k)"
  "yPos (headingStyle s) = yPos s"
  "yPos (drawOp op s) = yPos s"
  by (simp_all add: advance_def headingStyle_def drawOp_def Let_def)

lemma yPos_checkNewPage [simp]: "(yPos (snd (checkNewPage k s)) = NaN) = (yPos s = NaN)"
  by (cases "yPos s") (simp_all add: checkNewPage_def docAddPage_def jgt_def)

lemma docImages_fields [simp]:
  "docImages (s\<lparr>fontSize := a\<rparr>) = docImages s"
  "docImages (s\<lparr>fontBold := b\<rparr>) = docImages s"
  "docImages (s\<lparr>textColor := c\<rparr>) = docImages s"
  "docImages (s\<lparr>fillColor := c\<rparr>) = docImages s"
  "docImages (s\<lparr>drawColor := c\<rparr>) = docImages s"
  "docImages (s\<lparr>lineWidth := w\<rparr>) = docImages s"
  "docImages (s\<lparr>yPos := y\<rparr>) = docImages s"
  "docImages (advance k s) = docImages s"
  "docImages (headingStyle s) = docImages s"
  "docImages (docAddPage s) = docImages s"
  "docImages (snd (checkNewPage k s)) = docImages s"
  by (simp_all add: docImages_def advance_def headingStyle_def docAddPage_def checkNewPage_def
      Let_def)

lemma docImages_drawOp:
  "wfDoc s \<Longrightarrow> docImages (drawOp op s) = docImages s @ opImages op"
proof -
  assume wf: "wfDoc s"
  then have ne: "pages s \<noteq> []" by (simp add: wfDoc_def)
  have "concat (pages (drawOp op s)) = concat (pages s) @ [op]"
  proof -
    have "concat (butlast (pages s) @ [last (pages s) @ [op]])
        = concat (butlast (pages s) @ [last (pages s)]) @ [op]"
      by simp
    then show ?thesis using ne wf by (simp add: drawOp_wf onLastPage_def)
  qed
  then show ?thesis by (simp add: docImages_def)
qed

text \<open>The shape of the rules: from a calm state, a section returns a calm state.\<close>

lemma calmI: "wfDoc t \<Longrightarrow> yPos t \<noteq> NaN \<Longrightarrow> docImages t = docImages s \<Longrightarrow> calm s t"
  by (simp add: calm_def)

lemma calm_bind:
  "yields m (calm s)
   \<Longrightarrow> (\<And>x. wfDoc x \<Longrightarrow> yPos x \<noteq> NaN \<Longrightarrow> docImages x = docImages s \<Longrightarrow> yields (f x) (calm s))
   \<Longrightarrow> yields (Option.bind m f) (calm s)"
  by (cases m) (simp_all add: calm_def)

lemma calm_forEach:
  assumes "\<And>u x. wfDoc u \<Longrightarrow> yPos u \<noteq> NaN \<Longrightarrow> docImages u = docImages s
             \<Longrightarrow> yields (g u x) (calm s)"
    and "wfDoc t" "yPos t \<noteq> NaN" "docImages t = docImages s"
  shows "yields (forEach g t xs) (calm s)"
  by (rule yields_forEach [where P = "calm s"]) (simp_all add: calm_def assms)

lemma calm_Some:
  "wfDoc t \<Longrightarrow> yPos t \<noteq> NaN \<Longrightarrow> docImages t = docImages s \<Longrightarrow> yields (Some t) (calm s)"
  by (simp add: calm_def)

lemma calm_docText:
  "wfDoc t \<Longrightarrow> yPos t \<noteq> NaN \<Longrightarrow> docImages t = docImages s \<Longrightarrow> y \<noteq> NaN
   \<Longrightarrow> yields (docText txt x y a t) (calm s)"
  by (simp add: docText_def calm_def docImages_drawOp)

lemma calm_docTextLines:
  "wfDoc t \<Longrightarrow> yPos t \<noteq> NaN \<Longrightarrow> docImages t = docImages s \<Longrightarrow> y \<noteq> NaN
   \<Longrightarrow> yields (docTextLines ls x y t) (calm s)"
  by (simp add: docTextLines_def calm_def docImages_drawOp)

lemma calm_docRect:
  "wfDoc t \<Longrightarrow> yPos t \<noteq> NaN \<Longrightarrow> docImages t = docImages s \<Longrightarrow> y \<noteq> NaN
   \<Longrightarrow> yields (docRect x y w h t) (calm s)"
  by (simp add: docRect_def calm_def docImages_drawOp)

lemma calm_docLine:
  "wfDoc t \<Longrightarrow> yPos t \<noteq> NaN \<Longrightarrow> docImages t = docImages s \<Longrightarrow> y1 \<noteq> NaN \<Longrightarrow> y2 \<noteq> NaN
   \<Longrightarrow> yields (docLine x1 y1 x2 y2 t) (calm s)"
  by (simp add: docLine_def calm_def docImages_drawOp)

lemmas calm_prims = calm_bind calm_forEach calm_Some calmI calm_docText calm_docTextLines
  calm_docRect calm_docLine

lemma calm_addLine:
  "wfDoc t \<Longrightarrow> yPos t \<noteq> NaN \<Longrightarrow> docImages t = docImages s \<Longrightarrow> yields (addLine t) (calm s)"
  unfolding addLine_def Let_def by (auto intro!: calm_prims)

lemma calm_addSectionHeader:
  "wfDoc t \<Longrightarrow> yPos t \<noteq> NaN \<Longrightarrow> docImages t = docImages s
   \<Longrightarrow> yields (addSectionHeader title t) (calm s)"
  unfolding addSectionHeader_def Let_def by (auto intro!: calm_prims)

lemma calm_contactLine:
  "wfDoc t \<Longrightarrow> yPos t \<noteq> NaN \<Longrightarrow> docImages t = docImages s
   \<Longrightarrow> yields (contactLine f t) (calm s)"
  unfolding contactLine_def Let_def by (auto intro!: calm_prims)

lemma calm_documentHeader:
  "wfDoc t \<Longrightarrow> yPos t \<noteq> NaN \<Longrightarrow> docImages t = docImages s
   \<Longrightarrow> yields (documentHeader f t) (calm s)"
  unfolding documentHeader_def Let_def by (auto intro!: calm_prims calm_contactLine calm_addLine)

lemma calm_labelled:
  "wfDoc t \<Longrightarrow> yPos t \<noteq> NaN \<Longrightarrow> docImages t = docImages s
   \<Longrightarrow> yields (labelled l v t) (calm s)"
  unfolding labelled_def Let_def by (auto intro!: calm_prims)

lemma calm_labelledWrapped:
  "wfDoc t \<Longrightarrow> yPos t \<noteq> NaN \<Longrightarrow> docImages t = docImages s
   \<Longrightarrow> yields (labelledWrapped e l v t) (calm s)"
  unfolding labelledWrapped_def Let_def by (auto intro!: calm_prims)

lemma calm_clientDetails:
  "wfDoc t \<Longrightarrow> yPos t \<noteq> NaN \<Longrightarrow> docImages t = docImages s
   \<Longrightarrow> yields (clientDetails e f t) (calm s)"
  unfolding clientDetails_def clientNameRow_def clientAddressRow_def inspectionDateRow_def
    inspectorRow_def credentialsRow_def Let_def
  by (auto intro!: calm_prims calm_addSectionHeader calm_labelled calm_labelledWrapped)

lemma calm_tableRow:
  "wfDoc t \<Longrightarrow> yPos t \<noteq> NaN \<Longrightarrow> docImages t = docImages s
   \<Longrightarrow> yields (tableRow t ir) (calm s)"
  unfolding tableRow_def Let_def by (auto intro!: calm_prims)

lemma calm_inspectionDetails:
  "wfDoc t \<Longrightarrow> yPos t \<noteq> NaN \<Longrightarrow> docImages t = docImages s
   \<Longrightarrow> yields (inspectionDetails f t) (calm s)"
  unfolding inspectionDetails_def Let_def
  by (auto intro!: calm_prims calm_addSectionHeader calm_tableRow)

lemma calm_disclaimerLine:
  "wfDoc t \<Longrightarrow> yPos t \<noteq> NaN \<Longrightarrow> docImages t = docImages s
   \<Longrightarrow> yields (disclaimerLine t l) (calm s)"
  unfolding disclaimerLine_def Let_def by (auto intro!: calm_prims)

lemma calm_disclaimerSection:
  "wfDoc t \<Longrightarrow> yPos t \<noteq> NaN \<Longrightarrow> docImages t = docImages s
   \<Longrightarrow> yields (disclaimerSection e f t) (calm s)"
  unfolding disclaimerSection_def Let_def
  by (auto intro!: calm_prims calm_addSectionHeader calm_disclaimerLine)

lemma calm_defectHeading:
  "wfDoc t \<Longrightarrow> yPos t \<noteq> NaN \<Longrightarrow> docImages t = docImages s
   \<Longrightarrow> yields (defectHeading title t) (calm s)"
  unfolding defectHeading_def Let_def by (auto intro!: calm_prims)

lemma calm_descLine:
  "wfDoc t \<Longrightarrow> yPos t \<noteq> NaN \<Longrightarrow> docImages t = docImages s
   \<Longrightarrow> yields (descLine t l) (calm s)"
  unfolding descLine_def Let_def by (auto intro!: calm_prims)

lemma calm_defectDescription:
  "wfDoc t \<Longrightarrow> yPos t \<noteq> NaN \<Longrightarrow> docImages t = docImages s
   \<Longrightarrow> yields (defectDescription e d t) (calm s)"
  unfolding defectDescription_def Let_def by (auto intro!: calm_prims calm_descLine)

lemma calm_separator:
  "wfDoc t \<Longrightarrow> yPos t \<noteq> NaN \<Longrightarrow> docImages t = docImages s
   \<Longrightarrow> yields (separator t) (calm s)"
  unfolding separator_def Let_def by (auto intro!: calm_prims)

lemma calm_reportSections: "yields (reportSections e f) (calm newDoc)"
proof -
  have "wfDoc newDoc" "yPos newDoc \<noteq> NaN" by (simp_all add: wfDoc_def newDoc_def)
  then show ?thesis
    unfolding reportSections_def
    by (intro calm_bind calm_documentHeader calm_clientDetails calm_inspectionDetails
        calm_disclaimerSection) simp_all
qed

lemma scaleImage_loads:
  assumes "imageLoads e d"
  shows "\<exists>pw ph. scaleImage (fst (imageDims e (imageData d))) (snd (imageDims e (imageData d)))
           = (Fin pw, Fin ph)"
  using assms scaleImage_pos [of "fst (imageDims e (imageData d))" "snd (imageDims e (imageData d))"]
  by (simp add: imageLoads_def)

lemma jadd_Fin_NaN [simp]: "(jadd a (jadd (Fin p) (Fin k)) = NaN) = (a = NaN)"
  by simp

lemma calm_defectImage:
  assumes wf: "wfDoc t" and y: "yPos t \<noteq> NaN" and ok: "imageLoads e d"
  shows "yields (defectImage e i d t)
           (\<lambda>u. wfDoc u \<and> yPos u \<noteq> NaN \<and> docImages u = docImages t @ [(imageData d, ''JPEG'')])"
proof -
  obtain pw ph where sc:
    "scaleImage (fst (imageDims e (imageData d))) (snd (imageDims e (imageData d))) = (Fin pw, Fin ph)"
    using scaleImage_loads [OF ok] by blast
  have nt: "\<And>x yy w h. \<not> addImageThrows e (imageData d) ''JPEG'' x yy w h"
    using ok by (simp add: imageLoads_def)
  show ?thesis
    using wf y
    by (simp add: defectImage_def imageFit_def defectHeading_def docText_def docAddImage_def
        Let_def sc nt docImages_drawOp margin_def)
qed

lemma calm_renderDefect:
  assumes wf: "wfDoc t" and y: "yPos t \<noteq> NaN" and ok: "imageLoads e d"
  shows "yields (renderDefect e n i d t)
           (\<lambda>u. wfDoc u \<and> yPos u \<noteq> NaN \<and> docImages u = docImages t @ [(imageData d, ''JPEG'')])"
proof -
  let ?Q = "\<lambda>u. wfDoc u \<and> yPos u \<noteq> NaN \<and> docImages u = docImages t @ [(imageData d, ''JPEG'')]"
  have q: "yields m ?Q" if "?Q x" "yields m (calm x)" for x m
    using that by (cases m) (simp_all add: calm_def)
  have h: "yields (defectHeading (defectTitle i d) (snd (checkNewPage 100 t))) (calm t)"
    using wf y by (intro calm_defectHeading) simp_all
  have im: "yields (defectImage e i d x) ?Q" if "calm t x" for x
    using calm_defectImage [of x e d i] that ok by (simp add: calm_def)
  have de: "yields (defectDescription e d x) ?Q" if "?Q x" for x
    using that by (intro q [of x] calm_defectDescription) simp_all
  have se: "yields (if int i < int n - 1 then separator x else Some x) ?Q" if "?Q x" for x
    using that by (cases "int i < int n - 1") (auto intro!: q [of x] calm_separator)
  show ?thesis
    unfolding renderDefect_def Let_def
    by (rule yields_bind [OF h], rule yields_bind [OF im], assumption,
        rule yields_bind [OF de], assumption, rule se)
qed

lemma calm_defectsLoop:
  assumes "wfDoc t" "yPos t \<noteq> NaN" "\<forall>d\<in>set ds. imageLoads e d"
  shows "yields (defectsLoop e n i ds t)
           (\<lambda>u. wfDoc u \<and> yPos u \<noteq> NaN
              \<and> docImages u = docImages t @ map (\<lambda>d. (imageData d, ''JPEG'')) ds)"
  using assms
proof (induction ds arbitrary: i t)
  case Nil
  then show ?case by simp
next
  case (Cons d ds)
  have r: "yields (renderDefect e n i d t)
      (\<lambda>u. wfDoc u \<and> yPos u \<noteq> NaN \<and> docImages u = docImages t @ [(imageData d, ''JPEG'')])"
    using Cons.prems by (intro calm_renderDefect) simp_all
  show ?case
    unfolding defectsLoop.simps
  proof (rule yields_bind [OF r])
    fix x
    assume x: "wfDoc x \<and> yPos x \<noteq> NaN \<and> docImages x = docImages t @ [(imageData d, ''JPEG'')]"
    have "yields (defectsLoop e n (Suc i) ds x)
        (\<lambda>u. wfDoc u \<and> yPos u \<noteq> NaN
           \<and> docImages u = docImages x @ map (\<lambda>d. (imageData d, ''JPEG'')) ds)"
      using x Cons.prems by (intro Cons.IH) simp_all
    then show "yields (defectsLoop e n (Suc i) ds x)
        (\<lambda>u. wfDoc u \<and> yPos u \<noteq> NaN
           \<and> docImages u = docImages t @ map (\<lambda>d. (imageData d, ''JPEG'')) (d # ds))"
      using x by (cases "defectsLoop e n (Suc i) ds x") simp_all
  qed
qed

lemma calm_defectsSection:
  assumes "wfDoc t" "yPos t \<noteq> NaN" "\<forall>d\<in>set ds. imageLoads e d"
  shows "yields (defectsSection e ds t)
           (\<lambda>u. wfDoc u \<and> yPos u \<noteq> NaN
              \<and> docImages u = docImages t @ map (\<lambda>d. (imageData d, ''JPEG'')) ds)"
proof (cases "ds = []")
  case True
  then show ?thesis using assms by (simp add: defectsSection_def)
next
  case False
  let ?s1 = "(docAddPage t)\<lparr>yPos := Fin margin\<rparr>"
  have h: "yields (addSectionHeader (defectsTitle (length ds)) ?s1) (calm t)"
    by (intro calm_addSectionHeader) simp_all
  show ?thesis
    using False unfolding defectsSection_def Let_def
  proof (simp, intro yields_bind [OF h])
    fix x assume x: "calm t x"
    have "yields (defectsLoop e (length ds) 0 ds x)
        (\<lambda>u. wfDoc u \<and> yPos u \<noteq> NaN
           \<and> docImages u = docImages x @ map (\<lambda>d. (imageData d, ''JPEG'')) ds)"
      using x assms(3) by (intro calm_defectsLoop) (simp_all add: calm_def)
    then show "yields (defectsLoop e (length ds) 0 ds x)
        (\<lambda>u. wfDoc u \<and> yPos u \<noteq> NaN
           \<and> docImages u = docImages t @ map (\<lambda>d. (imageData d, ''JPEG'')) ds)"
      using x by (simp add: calm_def)
  qed
qed

lemma calm_composeBody:
  assumes "\<forall>d\<in>set ds. imageLoads e d"
  shows "yields (composeBody e f ds)
           (\<lambda>u. wfDoc u \<and> docImages u = map (\<lambda>d. (imageData d, ''JPEG'')) ds)"
  unfolding composeBody_def
proof (rule yields_bind [OF calm_reportSections])
  fix x assume x: "calm newDoc x"
  have n: "docImages newDoc = []" by (simp add: docImages_def newDoc_def)
  have "yields (defectsSection e ds x)
      (\<lambda>u. wfDoc u \<and> yPos u \<noteq> NaN
         \<and> docImages u = docImages x @ map (\<lambda>d. (imageData d, ''JPEG'')) ds)"
    using x assms by (intro calm_defectsSection) (simp_all add: calm_def)
  then show "yields (defectsSection e ds x)
      (\<lambda>u. wfDoc u \<and> docImages u = map (\<lambda>d. (imageData d, ''JPEG'')) ds)"
    using x n by (cases "defectsSection e ds x") (simp_all add: calm_def)
qed

lemma opImages_footerOf [simp]: "concat (map opImages (footerOf e n k)) = []"
  by (simp add: footerOf_def)




section \<open>The format tag of the images\<close>



section \<open>Images\<close>

lemma defectImage_drawn:
  assumes wf: "wfDoc s" and y: "yPos s = Fin y"
    and dims: "scaleImage (fst (imageDims e (imageData d))) (snd (imageDims e (imageData d)))
                 = (iw, Fin ih)"
    and ok: "\<And>x yy. \<not> addImageThrows e (imageData d) ''JPEG'' x yy iw (Fin ih)"
  shows "\<exists>t. defectImage e i d s = Some t
      \<and> pages t =
           (if pageHeight - margin < y + ih + 20
            then pages s @
              [[TextOp (defectTitle i d @ '' (continued)'') margin (Fin margin) AlignLeft
                  11 True (44, 82, 130),
                ImageOp (imageData d) ''JPEG'' margin (Fin (margin + 8)) iw (Fin ih)]]
            else onLastPage (pages s) [ImageOp (imageData d) ''JPEG'' margin (Fin y) iw (Fin ih)])
      \<and> yPos t =
           (if pageHeight - margin < y + ih + 20 then Fin (margin + 8 + (ih + 5))
            else Fin (y + (ih + 5)))"
  using wf y dims ok
  by (simp add: defectImage_def imageFit_def defectHeading_def headingStyle_def Let_def prim_defs
      jgt_def wfDoc_def update_last onLastPage_def)

text \<open>
  The claim as the specification words it fails: the products are rounded, and at 67 by
  10 pixels the scaled width is the double after 170, wider than the box.
\<close>

theorem scaled_width_exceeds_box:
  "scaleImage 67 10 = (Fin (170 + 1 / 2 ^ 45), Fin (3570951197075487 / 140737488355328))
   \<and> maxImgWidth < 170 + 1 / 2 ^ 45"
  by (simp add: scaleImage_def imgRatio_def geom_defs toDouble_def roundEven_def binade.simps)

text \<open>
  C6, as the code has it. An image of \<open>w\<close> by \<open>h\<close> pixels, both positive, is scaled by
  \<open>r\<close>, the smaller of the two rounded quotients \<open>maxImgWidth / w\<close> and \<open>maxImgHeight / h\<close>;
  the scaled size is the pair of the rounded products \<open>w * r\<close> and \<open>h * r\<close>. It fits the
  box of \<open>maxImgWidth\<close> by \<open>maxImgHeight\<close> up to the two roundings, one side reaching its
  side of the box up to the two roundings; it keeps the aspect ratio up to the rounding of
  the products. Nothing caps the ratio at 1: it exceeds 1 exactly when the image is
  smaller than the box in both directions. This is the size the image is drawn with when
  \<^verbatim>\<open>doc.addImage\<close> takes it.
\<close>

theorem image_scaling:
  assumes "0 < w" "0 < h"
    and r: "r = min (toDouble (maxImgWidth / real w)) (toDouble (maxImgHeight / real h))"
    and pw: "pw = toDouble (real w * r)" and ph: "ph = toDouble (real h * r)"
  shows "imgRatio w h = Fin r
    \<and> scaleImage w h = (Fin pw, Fin ph)
    \<and> pw \<le> maxImgWidth * (1 + 1 / 2 ^ 53) ^ 2 \<and> ph \<le> maxImgHeight * (1 + 1 / 2 ^ 53) ^ 2
    \<and> (maxImgWidth * (1 - 1 / 2 ^ 53) ^ 2 \<le> pw \<or> maxImgHeight * (1 - 1 / 2 ^ 53) ^ 2 \<le> ph)
    \<and> \<bar>pw * real h - ph * real w\<bar> \<le> real w * real h * r / 2 ^ 52
    \<and> (1 < r) = (real w < maxImgWidth \<and> real h < maxImgHeight)
    \<and> (wfDoc s \<and> yPos s = Fin y \<and> imageDims e (imageData d) = (w, h)
         \<and> (\<forall>x yy. \<not> addImageThrows e (imageData d) ''JPEG'' x yy (Fin pw) (Fin ph))
       \<longrightarrow> (\<exists>t yy. defectImage e i d s = Some t
              \<and> last (last (pages t)) = ImageOp (imageData d) ''JPEG'' margin (Fin yy) (Fin pw) (Fin ph)))"
proof -
  note f = scaling_facts [OF assms(1) assms(2) r]
  have sc: "scaleImage w h = (Fin pw, Fin ph)"
    unfolding pw ph by (rule scaleImage_pos [OF assms(1) assms(2) r])
  have ir: "imgRatio w h = Fin r" using assms(1,2) by (simp add: imgRatio_pos r)
  have dr: "\<exists>t yy. defectImage e i d s = Some t
              \<and> last (last (pages t)) = ImageOp (imageData d) ''JPEG'' margin (Fin yy) (Fin pw) (Fin ph)"
    if "wfDoc s" "yPos s = Fin y" "imageDims e (imageData d) = (w, h)"
      "\<forall>x yy. \<not> addImageThrows e (imageData d) ''JPEG'' x yy (Fin pw) (Fin ph)"
  proof -
    have "\<exists>t. defectImage e i d s = Some t
      \<and> pages t =
           (if pageHeight - margin < y + ph + 20
            then pages s @
              [[TextOp (defectTitle i d @ '' (continued)'') margin (Fin margin) AlignLeft
                  11 True (44, 82, 130),
                ImageOp (imageData d) ''JPEG'' margin (Fin (margin + 8)) (Fin pw) (Fin ph)]]
            else onLastPage (pages s) [ImageOp (imageData d) ''JPEG'' margin (Fin y) (Fin pw) (Fin ph)])
      \<and> yPos t =
           (if pageHeight - margin < y + ph + 20 then Fin (margin + 8 + (ph + 5))
            else Fin (y + (ph + 5)))"
      using that sc by (intro defectImage_drawn) simp_all
    then show ?thesis by (auto simp: onLastPage_def)
  qed
  show ?thesis
    unfolding pw [symmetric] ph [symmetric]
    using ir sc f(2) [folded pw] f(3) [folded ph] f(4) [folded pw ph] f(5) [folded pw ph] f(6) dr
    by (intro conjI impI) (simp_all only:, blast)
qed

theorem image_scaling_witness:
  "(0::nat) < 40 \<and> (0::nat) < 30
   \<and> imageDims thumbEnv (imageData pngDefect) = (40, 30)
   \<and> imgRatio 40 30 = Fin (6004799503160661 / 2251799813685248)
   \<and> scaleImage 40 30 = (Fin (3752999689475413 / 35184372088832), Fin 80)
   \<and> (1::real) < 6004799503160661 / 2251799813685248
   \<and> 3752999689475413 / 35184372088832 \<le> maxImgWidth \<and> 80 \<le> maxImgHeight
   \<and> \<bar>3752999689475413 / 35184372088832 * real 30 - 80 * real 40\<bar>
        \<le> real 40 * real 30 * (6004799503160661 / 2251799813685248) / 2 ^ 52
   \<and> map_option (\<lambda>t. last (last (pages t))) (defectImage thumbEnv 0 pngDefect newDoc) =
       Some (ImageOp (imageData pngDefect) ''JPEG'' margin (Fin 20)
         (Fin (3752999689475413 / 35184372088832)) (Fin 80))"
proof -
  have r: "6004799503160661 / 2251799813685248
      = min (toDouble (maxImgWidth / real 40)) (toDouble (maxImgHeight / real 30))"
    by (simp add: geom_defs toDouble_def roundEven_def binade.simps)
  have pw: "3752999689475413 / 35184372088832
      = toDouble (real 40 * (6004799503160661 / 2251799813685248))"
    by (simp add: toDouble_def roundEven_def binade.simps)
  have ph: "80 = toDouble (real 30 * (6004799503160661 / 2251799813685248))"
    by (simp add: toDouble_def roundEven_def binade.simps)
  have d: "imageDims thumbEnv (imageData pngDefect) = (40, 30)"
    by (simp add: thumbEnv_def plainEnv_def)
  have nt: "\<forall>x yy. \<not> addImageThrows thumbEnv (imageData pngDefect) ''JPEG'' x yy
      (Fin (3752999689475413 / 35184372088832)) (Fin 80)"
    by (simp add: thumbEnv_def plainEnv_def)
  have wf: "wfDoc newDoc" and y: "yPos newDoc = Fin 20"
    by (simp_all add: wfDoc_def newDoc_def margin_def)
  have p40: "(0::nat) < 40" and p30: "(0::nat) < 30" by simp_all
  note th = image_scaling [OF p40 p30 r pw ph, of newDoc 20 thumbEnv pngDefect 0]
  have a: "imgRatio 40 30 = Fin (6004799503160661 / 2251799813685248)"
    and b: "scaleImage 40 30 = (Fin (3752999689475413 / 35184372088832), Fin 80)"
    and c: "\<bar>3752999689475413 / 35184372088832 * real 30 - 80 * real 40\<bar>
        \<le> real 40 * real 30 * (6004799503160661 / 2251799813685248) / 2 ^ 52"
    using th by simp_all
  obtain t yy where t: "defectImage thumbEnv 0 pngDefect newDoc = Some t"
    and l: "last (last (pages t)) = ImageOp (imageData pngDefect) ''JPEG'' margin (Fin yy)
      (Fin (3752999689475413 / 35184372088832)) (Fin 80)"
    using th wf y d nt by blast
  have e: "map_option (\<lambda>t. last (last (pages t))) (defectImage thumbEnv 0 pngDefect newDoc) =
       Some (ImageOp (imageData pngDefect) ''JPEG'' margin (Fin 20)
         (Fin (3752999689475413 / 35184372088832)) (Fin 80))"
    by (simp add: defectImage_def imageFit_def d b docAddImage_def drawOp_def
        thumbEnv_def plainEnv_def newDoc_def geom_defs jgt_def)
  show ?thesis
    using a b c d e by (simp add: geom_defs)
qed



lemma scaleImage_zero: "scaleImage 0 0 = (NaN, NaN)"
  by (simp add: scaleImage_def imgRatio_def geom_defs)

section \<open>Wrapped text across a page break\<close>

lemma allTexts_drawOp: "wfDoc s \<Longrightarrow> allTexts (drawOp op s) = allTexts s @ opTexts op"
proof -
  assume wf: "wfDoc s"
  then have "pages s = butlast (pages s) @ [last (pages s)]" by (simp add: wfDoc_def)
  then have "concat (pages s) = concat (butlast (pages s)) @ last (pages s)"
    by (metis concat.simps(1) concat.simps(2) concat_append append_Nil2)
  then show ?thesis using wf by (simp add: allTexts_def drawOp_wf onLastPage_def)
qed

lemma allTexts_fields [simp]:
  "allTexts (s\<lparr>fontSize := a\<rparr>) = allTexts s"
  "allTexts (s\<lparr>fontBold := b\<rparr>) = allTexts s"
  "allTexts (s\<lparr>textColor := c\<rparr>) = allTexts s"
  "allTexts (s\<lparr>fillColor := c\<rparr>) = allTexts s"
  "allTexts (s\<lparr>drawColor := c\<rparr>) = allTexts s"
  "allTexts (s\<lparr>lineWidth := w\<rparr>) = allTexts s"
  "allTexts (s\<lparr>yPos := y\<rparr>) = allTexts s"
  "allTexts (advance k s) = allTexts s"
  "allTexts (headingStyle s) = allTexts s"
  "allTexts (docAddPage s) = allTexts s"
  "allTexts (snd (checkNewPage k s)) = allTexts s"
  by (simp_all add: allTexts_def advance_def headingStyle_def docAddPage_def checkNewPage_def
      Let_def)

lemma addTextLine_texts:
  "wfDoc s \<Longrightarrow> addTextLine lh s l = Some t \<Longrightarrow> wfDoc t \<and> allTexts t = allTexts s @ [l]"
  by (auto simp: addTextLine_def Let_def docText_def allTexts_drawOp split: if_splits)

lemma addTextLineUnbounded_texts:
  "wfDoc s \<Longrightarrow> addTextLineUnbounded lh s l = Some t
   \<Longrightarrow> wfDoc t \<and> allTexts t = allTexts s @ [l]"
  by (auto simp: addTextLineUnbounded_def docText_def allTexts_drawOp split: if_splits)

lemma forEach_texts:
  assumes step: "\<And>s l t. wfDoc s \<Longrightarrow> g s l = Some t \<Longrightarrow> wfDoc t \<and> allTexts t = allTexts s @ [l]"
  shows "wfDoc s \<Longrightarrow> forEach g s ls = Some t \<Longrightarrow> allTexts t = allTexts s @ ls"
proof (induction ls arbitrary: s)
  case Nil
  then show ?case by simp
next
  case (Cons l ls)
  from Cons.prems(2) obtain u where u: "g s l = Some u" and r: "forEach g u ls = Some t"
    by (auto split: Option.bind_splits)
  have "wfDoc u \<and> allTexts u = allTexts s @ [l]" by (rule step [OF Cons.prems(1) u])
  then show ?case using Cons.IH [of u] r by simp
qed

lemma addTextLine_returns:
  "yPos s \<noteq> NaN \<Longrightarrow> \<exists>t. addTextLine lh s l = Some t \<and> yPos t \<noteq> NaN"
  by (simp add: addTextLine_def Let_def docText_def)

lemma addTextLineUnbounded_returns:
  "yPos s \<noteq> NaN \<Longrightarrow> \<exists>t. addTextLineUnbounded lh s l = Some t \<and> yPos t \<noteq> NaN"
  by (simp add: addTextLineUnbounded_def docText_def)

lemma forEach_returns:
  assumes step: "\<And>s l. yPos s \<noteq> NaN \<Longrightarrow> \<exists>t. g s l = Some t \<and> yPos t \<noteq> NaN"
  shows "yPos s \<noteq> NaN \<Longrightarrow> \<exists>t. forEach g s ls = Some t"
proof (induction ls arbitrary: s)
  case Nil
  then show ?case by simp
next
  case (Cons l ls)
  obtain u where "g s l = Some u" "yPos u \<noteq> NaN" using step [OF Cons.prems] by blast
  then show ?case using Cons.IH [of u] by simp
qed

lemma addTextLine_throws: "yPos s = NaN \<Longrightarrow> addTextLine lh s l = None"
  by (simp add: addTextLine_def Let_def docText_def checkNewPage_def jgt_def)

text \<open>
  C9. Starting from a document whose current page is its last one: whenever \<^verbatim>\<open>addText\<close>
  returns, the strings of the document, read page by page in drawing order, are the
  strings it had followed by the wrapped lines, each once and in order, wherever the page
  breaks fall; and writing the same wrap on a page of unbounded height returns too, with
  the same strings. \<^verbatim>\<open>addText\<close> returns whenever the cursor is a number.
\<close>

theorem addText_lines_kept:
  assumes "wfDoc s"
  shows "(\<forall>t. addText e txt fontSz isBold s = Some t \<longrightarrow>
            allTexts t = allTexts s @ splitTextToSize e fontSz isBold txt contentWidth
            \<and> map_option allTexts (addTextUnbounded e txt fontSz isBold s) = Some (allTexts t))
    \<and> (yPos s \<noteq> NaN \<longrightarrow> addText e txt fontSz isBold s \<noteq> None)"
proof -
  let ?s2 = "s\<lparr>fontSize := fontSz, fontBold := isBold\<rparr>"
  let ?ls = "splitTextToSize e fontSz isBold txt contentWidth"
  define lh where "lh = fontSz * 0.5"
  have wf: "wfDoc ?s2" using assms by simp
  have at: "addText e txt fontSz isBold s =
      Option.bind (forEach (addTextLine lh) ?s2 ?ls) (\<lambda>s3. Some (advance 2 s3))"
    by (simp add: addText_def Let_def lh_def)
  have au: "addTextUnbounded e txt fontSz isBold s =
      Option.bind (forEach (addTextLineUnbounded lh) ?s2 ?ls) (\<lambda>s3. Some (advance 2 s3))"
    by (simp add: addTextUnbounded_def Let_def lh_def)
  have a: "allTexts t = allTexts s @ ?ls
      \<and> map_option allTexts (addTextUnbounded e txt fontSz isBold s) = Some (allTexts t)"
    if t: "addText e txt fontSz isBold s = Some t" for t
  proof -
    obtain s3 where s3: "forEach (addTextLine lh) ?s2 ?ls = Some s3" and t3: "t = advance 2 s3"
      using t unfolding at by (auto split: Option.bind_splits)
    have tx: "allTexts s3 = allTexts s @ ?ls"
      using forEach_texts [of "addTextLine lh" ?s2 ?ls s3, OF addTextLine_texts wf s3] by simp
    have "?ls = [] \<or> yPos s \<noteq> NaN"
    proof (cases ?ls)
      case Nil
      then show ?thesis by simp
    next
      case (Cons l ls)
      then show ?thesis using s3 addTextLine_throws [of ?s2 lh l]
        by (cases "yPos s = NaN") simp_all
    qed
    then obtain u3 where u3: "forEach (addTextLineUnbounded lh) ?s2 ?ls = Some u3"
      using forEach_returns [of "addTextLineUnbounded lh" ?s2 ?ls,
          OF addTextLineUnbounded_returns]
      by (cases "?ls = []") auto
    have "allTexts u3 = allTexts s @ ?ls"
      using forEach_texts [of "addTextLineUnbounded lh" ?s2 ?ls u3,
          OF addTextLineUnbounded_texts wf u3] by simp
    then show ?thesis using tx by (simp add: au u3 t3)
  qed
  have b: "addText e txt fontSz isBold s \<noteq> None" if y: "yPos s \<noteq> NaN"
  proof -
    obtain s3 where "forEach (addTextLine lh) ?s2 ?ls = Some s3"
      using forEach_returns [of "addTextLine lh" ?s2 ?ls, OF addTextLine_returns] y by auto
    then show ?thesis by (simp add: at)
  qed
  show ?thesis using a b by blast
qed

theorem addText_lines_kept_witness:
  "wfDoc (newDoc\<lparr>yPos := Fin 268\<rparr>) \<and> yPos (newDoc\<lparr>yPos := Fin 268\<rparr>) \<noteq> NaN
   \<and> map_option pages (addText twoLineEnv ''firstlast'' 10 False (newDoc\<lparr>yPos := Fin 268\<rparr>)) =
       Some [[TextOp ''first'' 20 (Fin 268) AlignLeft 10 False (0, 0, 0)],
        [TextOp ''last'' 20 (Fin 20) AlignLeft 10 False (0, 0, 0)]]
   \<and> map_option allTexts (addText twoLineEnv ''firstlast'' 10 False (newDoc\<lparr>yPos := Fin 268\<rparr>)) =
       Some [''first'', ''last'']
   \<and> map_option allTexts (addTextUnbounded twoLineEnv ''firstlast'' 10 False
        (newDoc\<lparr>yPos := Fin 268\<rparr>)) = Some [''first'', ''last'']"
proof -
  have wf: "wfDoc (newDoc\<lparr>yPos := Fin 268\<rparr>)" by (simp add: wfDoc_def newDoc_def)
  have pg: "map_option pages (addText twoLineEnv ''firstlast'' 10 False (newDoc\<lparr>yPos := Fin 268\<rparr>)) =
       Some [[TextOp ''first'' 20 (Fin 268) AlignLeft 10 False (0, 0, 0)],
        [TextOp ''last'' 20 (Fin 20) AlignLeft 10 False (0, 0, 0)]]"
    by (simp add: run_defs prim_defs geom_defs twoLineEnv_def env_defs Let_def
        cong: let_weak_cong bind_weak_cong)
  then obtain t where t: "addText twoLineEnv ''firstlast'' 10 False (newDoc\<lparr>yPos := Fin 268\<rparr>) = Some t"
    and pt: "pages t = [[TextOp ''first'' 20 (Fin 268) AlignLeft 10 False (0, 0, 0)],
        [TextOp ''last'' 20 (Fin 20) AlignLeft 10 False (0, 0, 0)]]"
    by auto
  have tx: "allTexts t = [''first'', ''last'']" by (simp add: allTexts_def pt)
  have ub: "map_option allTexts (addTextUnbounded twoLineEnv ''firstlast'' 10 False
      (newDoc\<lparr>yPos := Fin 268\<rparr>)) = Some (allTexts t)"
    using addText_lines_kept [OF wf, of twoLineEnv "''firstlast''" 10 False] t by blast
  show ?thesis
    using wf pg by (simp add: t tx ub)
qed

section \<open>The defects section\<close>

lemma fresh_header:
  assumes "wfDoc s"
  shows "\<exists>s2. addSectionHeader t ((docAddPage s)\<lparr>yPos := Fin margin\<rparr>) = Some s2
      \<and> pages s2 =
           pages s @ [[RectOp margin (Fin margin) contentWidth 10 (240, 240, 240),
                       TextOp t (margin + 3) (Fin (margin + 7)) AlignLeft 12 True (30, 30, 30)]]
      \<and> yPos s2 = Fin (margin + 17) \<and> wfDoc s2"
  using assms
  by (simp add: addSectionHeader_def checkNewPage_def Let_def prim_defs jgt_def jsub_def
      wfDoc_def geom_defs)

lemma pages_defectHeading:
  "wfDoc s \<Longrightarrow> yPos s = Fin y \<Longrightarrow>
   \<exists>h. defectHeading title s = Some h \<and> wfDoc h
     \<and> pages h = onLastPage (pages s) [TextOp title margin (Fin y) AlignLeft 11 True (44, 82, 130)]"
  by (simp add: defectHeading_def headingStyle_def Let_def prim_defs wfDoc_def update_last
      onLastPage_def)

lemma first_round:
  assumes wf: "wfDoc s" and y: "yPos s = Fin (margin + 17)"
    and b: "defectsLoop e n 0 (d # ds) s = Some b"
  shows "\<exists>h. defectHeading (defectTitle 0 d) s = Some h \<and> grows h b"
proof -
  obtain h where h: "defectHeading (defectTitle 0 d) s = Some h" and wh: "wfDoc h"
    using pages_defectHeading [OF wf y] by blast
  have c: "snd (checkNewPage 100 s) = s"
    using y by (simp add: checkNewPage_def jgt_def geom_defs)
  define rest where "rest = (\<lambda>s2. do {
     s3 \<leftarrow> defectImage e 0 d s2;
     s4 \<leftarrow> defectDescription e d s3;
     if int 0 < int n - 1 then separator s4 else Some s4 })"
  have r: "renderDefect e n 0 d s = rest h"
    by (simp add: renderDefect_def Let_def c h rest_def)
  have gh: "grows h h" by (rule grows_refl [OF wh])
  have "after (rest h) (grows h)"
    unfolding rest_def
    by (auto intro!: grows_bind grows_defectImage grows_defectDescription grows_separator gh)
  then have "after (Option.bind (rest h) (defectsLoop e n (Suc 0) ds)) (grows h)"
    by (rule grows_bind) (rule grows_defectsLoop)
  then have "grows h b" using b r by simp
  then show ?thesis using h by blast
qed

lemma defectsLoop_fresh:
  assumes wf: "wfDoc s"
    and b: "Option.bind (addSectionHeader t ((docAddPage s)\<lparr>yPos := Fin margin\<rparr>))
              (defectsLoop e n 0 (d # ds)) = Some b"
  shows "\<exists>ops more. pages b =
      pages s @
        ([RectOp margin (Fin margin) contentWidth 10 (240, 240, 240),
          TextOp t (margin + 3) (Fin (margin + 7)) AlignLeft 12 True (30, 30, 30),
          TextOp (defectTitle 0 d) margin (Fin (margin + 17)) AlignLeft 11 True (44, 82, 130)]
         @ ops) # more"
proof -
  obtain s2 where s2: "addSectionHeader t ((docAddPage s)\<lparr>yPos := Fin margin\<rparr>) = Some s2"
    and p2: "pages s2 =
           pages s @ [[RectOp margin (Fin margin) contentWidth 10 (240, 240, 240),
                       TextOp t (margin + 3) (Fin (margin + 7)) AlignLeft 12 True (30, 30, 30)]]"
    and y2: "yPos s2 = Fin (margin + 17)" and w2: "wfDoc s2"
    using fresh_header [OF wf, of t] by blast
  have b2: "defectsLoop e n 0 (d # ds) s2 = Some b" using b by (simp only: s2 bind.simps)
  obtain h where h: "defectHeading (defectTitle 0 d) s2 = Some h" and g: "grows h b"
    using first_round [OF w2 y2 b2] by blast
  have ph: "pages h = pages s @
        [[RectOp margin (Fin margin) contentWidth 10 (240, 240, 240),
          TextOp t (margin + 3) (Fin (margin + 7)) AlignLeft 12 True (30, 30, 30),
          TextOp (defectTitle 0 d) margin (Fin (margin + 17)) AlignLeft 11 True (44, 82, 130)]]"
    using pages_defectHeading [OF w2 y2, of "defectTitle 0 d"] h p2
    by (simp add: onLastPage_def)
  from g obtain ops more where
    "pages b = butlast (pages h) @ (last (pages h) @ ops) # more"
    unfolding grows_def by blast
  then have "pages b =
       pages s @
        ([RectOp margin (Fin margin) contentWidth 10 (240, 240, 240),
          TextOp t (margin + 3) (Fin (margin + 7)) AlignLeft 12 True (30, 30, 30),
          TextOp (defectTitle 0 d) margin (Fin (margin + 17)) AlignLeft 11 True (44, 82, 130)]
         @ ops) # more"
    unfolding ph by (simp add: butlast_append)
  then show ?thesis by blast
qed

lemma defectsSection_fresh:
  assumes wf: "wfDoc s" and b: "defectsSection e (d # ds) s = Some b"
  shows "\<exists>ops more. pages b =
      pages s @
        ([RectOp margin (Fin margin) contentWidth 10 (240, 240, 240),
          TextOp (defectsTitle (length (d # ds))) (margin + 3) (Fin (margin + 7)) AlignLeft
            12 True (30, 30, 30),
          TextOp (defectTitle 0 d) margin (Fin (margin + 17)) AlignLeft 11 True (44, 82, 130)]
         @ ops) # more"
proof -
  have "defectsSection e (d # ds) s =
      Option.bind (addSectionHeader (defectsTitle (length (d # ds)))
                     ((docAddPage s)\<lparr>yPos := Fin margin\<rparr>))
        (defectsLoop e (length (d # ds)) 0 (d # ds))"
    unfolding defectsSection_def Let_def by simp
  then show ?thesis
    using defectsLoop_fresh [OF wf, of "defectsTitle (length (d # ds))" e "length (d # ds)" d ds b] b
    by (simp only:)
qed

text \<open>
  C7. The report sections always return. With no defect the section is not composed: the
  document is the one the report sections left. With at least one defect, in whatever
  document the composition returns, the pages the report sections produced are left as
  they were and at least one page follows them; the first new page begins with the banner
  and the title "Identified Defects (n Total)" at the top margin, followed by the heading
  of the first defect, whatever room the last report page had left. And the composition
  returns when the image of every defect loads.
\<close>

theorem defects_start_fresh_page:
  "\<exists>r. reportSections e f = Some r
     \<and> (ds = [] \<longrightarrow> composeBody e f ds = Some r)
     \<and> (ds \<noteq> [] \<longrightarrow>
          (\<forall>b. composeBody e f ds = Some b \<longrightarrow>
             length (pages r) < length (pages b)
             \<and> take (length (pages r)) (pages b) = pages r
             \<and> take 3 (pages b ! length (pages r)) =
                 [RectOp margin (Fin margin) contentWidth 10 (240, 240, 240),
                  TextOp (defectsTitle (length ds)) (margin + 3) (Fin (margin + 7)) AlignLeft
                    12 True (30, 30, 30),
                  TextOp (defectTitle 0 (hd ds)) margin (Fin (margin + 17)) AlignLeft 11 True
                    (44, 82, 130)]))
     \<and> ((\<forall>d\<in>set ds. imageLoads e d) \<longrightarrow> composeBody e f ds \<noteq> None)"
proof -
  obtain r where r: "reportSections e f = Some r" and cr: "calm newDoc r"
    using yieldsD [OF calm_reportSections [of e f]] by blast
  have wf: "wfDoc r" using cr by (simp add: calm_def)
  have a: "composeBody e f ds = Some r" if "ds = []"
    using that by (simp add: composeBody_def r defectsSection_def)
  have b: "length (pages r) < length (pages b)
             \<and> take (length (pages r)) (pages b) = pages r
             \<and> take 3 (pages b ! length (pages r)) =
                 [RectOp margin (Fin margin) contentWidth 10 (240, 240, 240),
                  TextOp (defectsTitle (length ds)) (margin + 3) (Fin (margin + 7)) AlignLeft
                    12 True (30, 30, 30),
                  TextOp (defectTitle 0 (hd ds)) margin (Fin (margin + 17)) AlignLeft 11 True
                    (44, 82, 130)]"
    if ne: "ds \<noteq> []" and cb: "composeBody e f ds = Some b" for b
  proof -
    obtain d ds' where ds: "ds = d # ds'" using ne by (cases ds) simp_all
    have "defectsSection e (d # ds') r = Some b"
      using cb by (simp add: composeBody_def r ds)
    from defectsSection_fresh [OF wf this] obtain ops more where
      "pages b =
        pages r @
          ([RectOp margin (Fin margin) contentWidth 10 (240, 240, 240),
            TextOp (defectsTitle (length ds)) (margin + 3) (Fin (margin + 7)) AlignLeft
              12 True (30, 30, 30),
            TextOp (defectTitle 0 d) margin (Fin (margin + 17)) AlignLeft 11 True (44, 82, 130)]
           @ ops) # more"
      unfolding ds by blast
    then show ?thesis using ds by (simp add: nth_append)
  qed
  have c: "composeBody e f ds \<noteq> None" if "\<forall>d\<in>set ds. imageLoads e d"
    using yieldsD [OF calm_composeBody [OF that, of f]] by auto
  show ?thesis using r a b c by blast
qed

theorem defects_start_fresh_page_witness:
  "map_option (\<lambda>r. length (pages r)) (reportSections tickEnv emptyForm) = Some 1
   \<and> composeBody tickEnv emptyForm [] = reportSections tickEnv emptyForm
   \<and> [pngDefect] \<noteq> [] \<and> imageLoads tickEnv pngDefect
   \<and> map_option (\<lambda>b. length (pages b)) (composeBody tickEnv emptyForm [pngDefect]) = Some 2
   \<and> map_option (\<lambda>b. take 1 (pages b)) (composeBody tickEnv emptyForm [pngDefect]) =
       map_option pages (reportSections tickEnv emptyForm)
   \<and> map_option (\<lambda>b. take 3 (pages b ! 1)) (composeBody tickEnv emptyForm [pngDefect]) =
       Some [RectOp 20 (Fin 20) 170 10 (240, 240, 240),
        TextOp ''Identified Defects (1 Total)'' 23 (Fin 27) AlignLeft 12 True (30, 30, 30),
        TextOp ''Defect #1: Crack'' 20 (Fin 37) AlignLeft 11 True (44, 82, 130)]"
proof -
  have il: "imageLoads tickEnv pngDefect"
    by (simp add: imageLoads_def tickEnv_def plainEnv_def)
  have n: "map_option (\<lambda>r. length (pages r)) (reportSections tickEnv emptyForm) = Some 1"
    by (simp add: run_defs prim_defs geom_defs env_defs Let_def
        cong: let_weak_cong bind_weak_cong)
  have m: "map_option (\<lambda>b. length (pages b)) (composeBody tickEnv emptyForm [pngDefect]) = Some 2"
    by (simp add: run_defs prim_defs geom_defs env_defs Let_def showNat.simps digitChar_def
        scaleImage_plain del: scaleImage_def imgRatio_def cong: let_weak_cong bind_weak_cong)
  have t: "defectsTitle (Suc 0) = ''Identified Defects (1 Total)''"
    "defectTitle 0 pngDefect = ''Defect #1: Crack''"
    by (simp_all add: defectsTitle_def defectTitle_def pngDefect_def showNat.simps digitChar_def)
  obtain r where r: "reportSections tickEnv emptyForm = Some r"
    and e: "composeBody tickEnv emptyForm [] = Some r"
    using defects_start_fresh_page [of tickEnv emptyForm "[]"] by auto
  obtain r' where r': "reportSections tickEnv emptyForm = Some r'"
    and th: "\<forall>b. composeBody tickEnv emptyForm [pngDefect] = Some b \<longrightarrow>
             length (pages r') < length (pages b)
             \<and> take (length (pages r')) (pages b) = pages r'
             \<and> take 3 (pages b ! length (pages r')) =
                 [RectOp margin (Fin margin) contentWidth 10 (240, 240, 240),
                  TextOp (defectsTitle (length [pngDefect])) (margin + 3) (Fin (margin + 7)) AlignLeft
                    12 True (30, 30, 30),
                  TextOp (defectTitle 0 (hd [pngDefect])) margin (Fin (margin + 17)) AlignLeft 11 True
                    (44, 82, 130)]"
    using defects_start_fresh_page [of tickEnv emptyForm "[pngDefect]"] by auto
  obtain b where b: "composeBody tickEnv emptyForm [pngDefect] = Some b"
    using m by (cases "composeBody tickEnv emptyForm [pngDefect]") simp_all
  have lr: "length (pages r') = 1" using n by (simp add: r')
  have rr: "r = r'" using r r' by simp
  show ?thesis
    using th [rule_format, OF b] il n m
    by (simp add: r' e rr b lr t geom_defs)
qed

section \<open>Absent fields\<close>

lemmas section_defs = checkNewPage_def addLine_def addSectionHeader_def
  contactInfo_def contactLine_def documentHeader_def labelled_def labelledWrapped_def
  clientNameRow_def clientAddressRow_def inspectionDateRow_def inspectorRow_def
  credentialsRow_def clientDetails_def tableData_def tableRow_def inspectionDetails_def
  disclaimerLine_def disclaimerSection_def defectsSection_def
  pageStamp_def timeStamp_def footerStep_def footers_def reportSections_def composeBody_def
  generatePdf_def newDoc_def orElse_def jgt_def jsub_def

lemma getFieldValue_same: "getFieldValue (f(k \<mapsto> v)) k = trim v"
  by (simp add: getFieldValue_def)

lemma getFieldValue_other: "k' \<noteq> k \<Longrightarrow> getFieldValue (f(k \<mapsto> v)) k' = getFieldValue f k'"
  by (simp add: getFieldValue_def)

lemma trim_defaults:
  "trim ''Inspection Company'' = ''Inspection Company''"
  "trim ''Home Defect Inspection Report'' = ''Home Defect Inspection Report''"
  "trim ''N/A'' = ''N/A''"
  by (simp_all add: trim_def isSpace_def)

lemma all_absent_texts:
  assumes "\<And>k. getFieldValue f k = []"
  shows "map_option allTexts (generatePdf e f []) = Some
    [''Inspection Company'', ''Home Defect Inspection Report'', ''Property & Client Details'',
     ''Inspection Details'', ''Attendance'', ''N/A'', ''Occupancy'', ''N/A'',
     ''Type of Building'', ''N/A'', ''Weather Condition'', ''N/A'', ''General Disclaimer'',
     ''Page 1 of 1'', ''Report generated: '' @ localeNow e 0]"
  by (simp add: section_defs prim_defs geom_defs assms allTexts_def Let_def showNat.simps
      digitChar_def upt_conv_Cons cong: let_weak_cong bind_weak_cong)

text \<open>
  C2, as the code has it. A field is absent when its trimmed value is empty.
  An absent company name is drawn as "Inspection Company" and an absent report title as
  "Home Defect Inspection Report": the header is the one of the form with that text typed
  in. An absent phone number or e-mail address is left out of the contact line, and with
  both absent no contact line is drawn. An absent client name, address, inspection date,
  inspector or credentials draws nothing and leaves the cursor where it was. An absent
  attendance, occupancy, building type or weather condition gives the table of the form
  with "N/A" typed in. An absent disclaimer leaves the section with its header only. With
  every field absent and no defect, the strings of the document are the two defaults, the
  section titles, the four table labels each followed by "N/A", and the footer; the run
  returns.
\<close>

theorem absent_fields:
  "(getFieldValue f ''companyName'' = [] \<longrightarrow>
      documentHeader f s = documentHeader (f(''companyName'' \<mapsto> ''Inspection Company'')) s)
   \<and> (getFieldValue f ''reportTitle'' = [] \<longrightarrow>
      documentHeader f s =
        documentHeader (f(''reportTitle'' \<mapsto> ''Home Defect Inspection Report'')) s)
   \<and> (getFieldValue f ''companyPhone'' = [] \<longrightarrow>
      contactInfo f = (if getFieldValue f ''companyEmail'' = [] then []
                       else [getFieldValue f ''companyEmail'']))
   \<and> (getFieldValue f ''companyEmail'' = [] \<longrightarrow>
      contactInfo f = (if getFieldValue f ''companyPhone'' = [] then []
                       else [getFieldValue f ''companyPhone'']))
   \<and> (contactInfo f = [] \<longrightarrow> contactLine f s = Some s)
   \<and> (getFieldValue f ''clientName'' = [] \<longrightarrow> clientNameRow f s = Some s)
   \<and> (getFieldValue f ''clientAddress'' = [] \<longrightarrow> clientAddressRow e f s = Some s)
   \<and> (getFieldValue f ''inspectionDate'' = [] \<longrightarrow> inspectionDateRow e f s = Some s)
   \<and> (getFieldValue f ''inspectorName'' = [] \<longrightarrow> inspectorRow f s = Some s)
   \<and> (getFieldValue f ''inspectorCredentials'' = [] \<longrightarrow> credentialsRow e f s = Some s)
   \<and> (getFieldValue f ''attendance'' = [] \<longrightarrow>
      inspectionDetails f s = inspectionDetails (f(''attendance'' \<mapsto> ''N/A'')) s)
   \<and> (getFieldValue f ''occupancy'' = [] \<longrightarrow>
      inspectionDetails f s = inspectionDetails (f(''occupancy'' \<mapsto> ''N/A'')) s)
   \<and> (getFieldValue f ''buildingType'' = [] \<longrightarrow>
      inspectionDetails f s = inspectionDetails (f(''buildingType'' \<mapsto> ''N/A'')) s)
   \<and> (getFieldValue f ''weatherCondition'' = [] \<longrightarrow>
      inspectionDetails f s = inspectionDetails (f(''weatherCondition'' \<mapsto> ''N/A'')) s)
   \<and> (getFieldValue f ''disclaimer'' = [] \<longrightarrow>
      disclaimerSection e f s = map_option (advance 5) (addSectionHeader ''General Disclaimer'' s))
   \<and> ((\<forall>k. getFieldValue f k = []) \<longrightarrow>
      map_option allTexts (generatePdf e f []) = Some
        [''Inspection Company'', ''Home Defect Inspection Report'',
         ''Property & Client Details'', ''Inspection Details'', ''Attendance'', ''N/A'',
         ''Occupancy'', ''N/A'', ''Type of Building'', ''N/A'', ''Weather Condition'', ''N/A'',
         ''General Disclaimer'', ''Page 1 of 1'', ''Report generated: '' @ localeNow e 0])"
proof -
  have hdr: "documentHeader f s = documentHeader (f(k \<mapsto> v)) s"
    if "orElse (getFieldValue f ''companyName'') ''Inspection Company'' =
          orElse (getFieldValue (f(k \<mapsto> v)) ''companyName'') ''Inspection Company''"
       "orElse (getFieldValue f ''reportTitle'') ''Home Defect Inspection Report'' =
          orElse (getFieldValue (f(k \<mapsto> v)) ''reportTitle'') ''Home Defect Inspection Report''"
       "contactInfo f = contactInfo (f(k \<mapsto> v))" for k v
    unfolding documentHeader_def contactLine_def that by (rule refl)
  have a: "getFieldValue f ''companyName'' = [] \<Longrightarrow>
      documentHeader f s = documentHeader (f(''companyName'' \<mapsto> ''Inspection Company'')) s"
    by (rule hdr)
       (simp_all add: getFieldValue_same getFieldValue_other trim_defaults orElse_def
          contactInfo_def)
  have b: "getFieldValue f ''reportTitle'' = [] \<Longrightarrow>
      documentHeader f s =
        documentHeader (f(''reportTitle'' \<mapsto> ''Home Defect Inspection Report'')) s"
    by (rule hdr)
       (simp_all add: getFieldValue_same getFieldValue_other trim_defaults orElse_def
          contactInfo_def)
  have tab: "inspectionDetails f s = inspectionDetails (f(k \<mapsto> v)) s"
    if "tableData f = tableData (f(k \<mapsto> v))" for k v
    using that by (simp add: inspectionDetails_def)
  have c: "getFieldValue f ''attendance'' = [] \<Longrightarrow>
      inspectionDetails f s = inspectionDetails (f(''attendance'' \<mapsto> ''N/A'')) s"
    by (rule tab)
       (simp add: tableData_def getFieldValue_same getFieldValue_other trim_defaults orElse_def)
  have d: "getFieldValue f ''occupancy'' = [] \<Longrightarrow>
      inspectionDetails f s = inspectionDetails (f(''occupancy'' \<mapsto> ''N/A'')) s"
    by (rule tab)
       (simp add: tableData_def getFieldValue_same getFieldValue_other trim_defaults orElse_def)
  have e': "getFieldValue f ''buildingType'' = [] \<Longrightarrow>
      inspectionDetails f s = inspectionDetails (f(''buildingType'' \<mapsto> ''N/A'')) s"
    by (rule tab)
       (simp add: tableData_def getFieldValue_same getFieldValue_other trim_defaults orElse_def)
  have g: "getFieldValue f ''weatherCondition'' = [] \<Longrightarrow>
      inspectionDetails f s = inspectionDetails (f(''weatherCondition'' \<mapsto> ''N/A'')) s"
    by (rule tab)
       (simp add: tableData_def getFieldValue_same getFieldValue_other trim_defaults orElse_def)
  have rows:
    "getFieldValue f ''clientName'' = [] \<Longrightarrow> clientNameRow f s = Some s"
    "getFieldValue f ''clientAddress'' = [] \<Longrightarrow> clientAddressRow e f s = Some s"
    "getFieldValue f ''inspectionDate'' = [] \<Longrightarrow> inspectionDateRow e f s = Some s"
    "getFieldValue f ''inspectorName'' = [] \<Longrightarrow> inspectorRow f s = Some s"
    "getFieldValue f ''inspectorCredentials'' = [] \<Longrightarrow> credentialsRow e f s = Some s"
    by (simp_all add: clientNameRow_def clientAddressRow_def inspectionDateRow_def
        inspectorRow_def credentialsRow_def)
  have ci:
    "getFieldValue f ''companyPhone'' = [] \<Longrightarrow>
      contactInfo f = (if getFieldValue f ''companyEmail'' = [] then []
                       else [getFieldValue f ''companyEmail''])"
    "getFieldValue f ''companyEmail'' = [] \<Longrightarrow>
      contactInfo f = (if getFieldValue f ''companyPhone'' = [] then []
                       else [getFieldValue f ''companyPhone''])"
    "contactInfo f = [] \<Longrightarrow> contactLine f s = Some s"
    by (simp_all add: contactInfo_def contactLine_def)
  have dis: "getFieldValue f ''disclaimer'' = [] \<Longrightarrow>
      disclaimerSection e f s = map_option (advance 5) (addSectionHeader ''General Disclaimer'' s)"
    by (cases "addSectionHeader ''General Disclaimer'' s") (simp_all add: disclaimerSection_def)
  show ?thesis
    using a b c d e' g rows ci dis all_absent_texts [of f e] by blast
qed


theorem absent_fields_witness:
  "getFieldValue emptyForm ''companyName'' = []
   \<and> documentHeader emptyForm newDoc =
       documentHeader (emptyForm(''companyName'' \<mapsto> ''Inspection Company'')) newDoc
   \<and> getFieldValue emptyForm ''reportTitle'' = []
   \<and> documentHeader emptyForm newDoc =
       documentHeader (emptyForm(''reportTitle'' \<mapsto> ''Home Defect Inspection Report'')) newDoc
   \<and> getFieldValue emptyForm ''companyPhone'' = []
   \<and> getFieldValue emptyForm ''companyEmail'' = []
   \<and> contactInfo emptyForm = []
   \<and> contactLine emptyForm newDoc = Some newDoc
   \<and> getFieldValue emptyForm ''clientName'' = []
   \<and> clientNameRow emptyForm newDoc = Some newDoc
   \<and> getFieldValue emptyForm ''clientAddress'' = []
   \<and> clientAddressRow plainEnv emptyForm newDoc = Some newDoc
   \<and> getFieldValue emptyForm ''inspectionDate'' = []
   \<and> inspectionDateRow plainEnv emptyForm newDoc = Some newDoc
   \<and> getFieldValue emptyForm ''inspectorName'' = []
   \<and> inspectorRow emptyForm newDoc = Some newDoc
   \<and> getFieldValue emptyForm ''inspectorCredentials'' = []
   \<and> credentialsRow plainEnv emptyForm newDoc = Some newDoc
   \<and> getFieldValue emptyForm ''attendance'' = []
   \<and> inspectionDetails emptyForm newDoc =
       inspectionDetails (emptyForm(''attendance'' \<mapsto> ''N/A'')) newDoc
   \<and> getFieldValue emptyForm ''occupancy'' = []
   \<and> inspectionDetails emptyForm newDoc =
       inspectionDetails (emptyForm(''occupancy'' \<mapsto> ''N/A'')) newDoc
   \<and> getFieldValue emptyForm ''buildingType'' = []
   \<and> inspectionDetails emptyForm newDoc =
       inspectionDetails (emptyForm(''buildingType'' \<mapsto> ''N/A'')) newDoc
   \<and> getFieldValue emptyForm ''weatherCondition'' = []
   \<and> inspectionDetails emptyForm newDoc =
       inspectionDetails (emptyForm(''weatherCondition'' \<mapsto> ''N/A'')) newDoc
   \<and> getFieldValue emptyForm ''disclaimer'' = []
   \<and> disclaimerSection plainEnv emptyForm newDoc =
       map_option (advance 5) (addSectionHeader ''General Disclaimer'' newDoc)
   \<and> map_option allTexts (generatePdf plainEnv emptyForm []) = Some
       [''Inspection Company'', ''Home Defect Inspection Report'',
        ''Property & Client Details'', ''Inspection Details'', ''Attendance'', ''N/A'',
        ''Occupancy'', ''N/A'', ''Type of Building'', ''N/A'', ''Weather Condition'', ''N/A'',
        ''General Disclaimer'', ''Page 1 of 1'', ''Report generated: '' @ localeNow plainEnv 0]"
proof -
  have ab: "getFieldValue emptyForm k = []" for k
    by (simp add: getFieldValue_def emptyForm_def)
  have ci: "contactInfo emptyForm = []"
    by (simp add: contactInfo_def ab)
  note th = absent_fields [of emptyForm newDoc plainEnv, simplified ab ci simp_thms if_True]
  show ?thesis
    by (intro conjI ab ci; insert th; elim conjE; assumption)
qed

text \<open>
  The claim as the specification words it fails: on the empty form the first two strings
  of the document stand in for the absent company name and report title, and they are
  neither left out nor "N/A".
\<close>

theorem absent_company_name_replaced:
  "getFieldValue emptyForm ''companyName'' = []
   \<and> getFieldValue emptyForm ''reportTitle'' = []
   \<and> map_option (\<lambda>s. take 2 (pages s ! 0)) (generatePdf plainEnv emptyForm []) = Some
       [TextOp ''Inspection Company'' 105 (Fin 20) AlignCenter 20 True (0, 0, 0),
        TextOp ''Home Defect Inspection Report'' 105 (Fin 35) AlignCenter 16 True (0, 0, 0)]"
  by (simp add: run_defs prim_defs geom_defs env_defs Let_def showNat.simps digitChar_def
      upt_conv_Cons cong: let_weak_cong bind_weak_cong)

section \<open>A long address\<close>

lemma dropWhile_replicate: "dropWhile P (replicate n x) = (if P x then [] else replicate n x)"
  by (induction n) simp_all

lemma trim_longAddress: "trim longAddress = longAddress"
  by (simp add: trim_def longAddress_def dropWhile_replicate isSpace_def)

lemma longAddress_nonempty: "longAddress \<noteq> []"
  by (simp add: longAddress_def)

lemma chunk_replicate:
  "0 < k \<Longrightarrow> chunk k (replicate (k * Suc n) c) = replicate (Suc n) (replicate k c)"
proof (induction n)
  case 0
  then show ?case by (simp add: chunk.simps)
next
  case (Suc n)
  have "chunk k (replicate (k * Suc (Suc n)) c) =
      take k (replicate (k * Suc (Suc n)) c) # chunk k (drop k (replicate (k * Suc (Suc n)) c))"
    using Suc.prems by (subst chunk.simps) simp
  also have "take k (replicate (k * Suc (Suc n)) c) = replicate k c"
    by (simp add: min_def)
  also have "drop k (replicate (k * Suc (Suc n)) c) = replicate (k * Suc n) c"
    by simp
  finally show ?case using Suc by simp
qed

lemma lines_longAddress: "length (chunk 65 longAddress) = 50"
proof -
  have "longAddress = replicate (65 * Suc 49) (CHR ''a'')" by (simp add: longAddress_def)
  moreover have "length (chunk 65 (replicate (65 * Suc 49) (CHR ''a''))) = Suc 49"
    by (subst chunk_replicate) simp_all
  ultimately show ?thesis by simp
qed

lemma fields_longAddressForm:
  "getFieldValue longAddressForm ''clientAddress'' = longAddress"
  "getFieldValue longAddressForm ''inspectorName'' = ''J. Doe''"
  "k \<noteq> ''clientAddress'' \<Longrightarrow> k \<noteq> ''inspectorName'' \<Longrightarrow> getFieldValue longAddressForm k = []"
proof -
  show "getFieldValue longAddressForm ''clientAddress'' = longAddress"
    by (simp add: getFieldValue_def longAddressForm_def trim_longAddress)
  show "getFieldValue longAddressForm ''inspectorName'' = ''J. Doe''"
    by (simp add: getFieldValue_def longAddressForm_def trim_def isSpace_def)
  show "k \<noteq> ''clientAddress'' \<Longrightarrow> k \<noteq> ''inspectorName''
      \<Longrightarrow> getFieldValue longAddressForm k = []"
    by (simp add: getFieldValue_def longAddressForm_def)
qed

text \<open>
  C5. The claim is what the page-break logic is for, and the handler breaks it: the
  address and the credentials are written as one block of wrapped lines and the cursor is
  moved past the block with no page-break check, where every other loop over wrapped
  lines checks before each line. On a form whose address wraps into 50 lines and that
  names the inspector, the cursor is at 319 after the address, on a page of height 297,
  and the next row, the inspector, is drawn there: below the bottom edge of page 1. The
  cursor is at 330 when the section ends.
\<close>

theorem long_address_runs_off_page:
  "length (splitTextToSize wrapEnv 10 False (getFieldValue longAddressForm ''clientAddress'')
      (contentWidth - 40)) = 50
   \<and> map_option offPage (generatePdf wrapEnv longAddressForm []) =
       Some [TextOp ''Inspector:'' 20 (Fin 319) AlignLeft 10 True (0, 0, 0),
             TextOp ''J. Doe'' 55 (Fin 319) AlignLeft 10 False (0, 0, 0)]
   \<and> pageHeight < 319
   \<and> map_option yPos (Option.bind (documentHeader longAddressForm newDoc)
        (clientDetails wrapEnv longAddressForm)) = Some (Fin 330)
   \<and> \<not> jlt (Fin 330) (Fin (pageHeight - margin))"
proof -
  have k: "nat \<lfloor>(130::real) * 5 / 10\<rfloor> = 65" by simp
  have a: "length (splitTextToSize wrapEnv 10 False (getFieldValue longAddressForm ''clientAddress'')
      (contentWidth - 40)) = 50"
    by (simp add: fields_longAddressForm wrapEnv_def plainEnv_def geom_defs lines_longAddress)
  have b: "map_option offPage (generatePdf wrapEnv longAddressForm []) =
       Some [TextOp ''Inspector:'' 20 (Fin 319) AlignLeft 10 True (0, 0, 0),
             TextOp ''J. Doe'' 55 (Fin 319) AlignLeft 10 False (0, 0, 0)]"
    by (simp add: section_defs prim_defs geom_defs wrapEnv_def plainEnv_def offPage_def
        fields_longAddressForm longAddress_nonempty lines_longAddress Let_def
        showNat.simps digitChar_def upt_conv_Cons cong: let_weak_cong bind_weak_cong)
  have c: "map_option yPos (Option.bind (documentHeader longAddressForm newDoc)
        (clientDetails wrapEnv longAddressForm)) = Some (Fin 330)"
    by (simp add: section_defs prim_defs geom_defs wrapEnv_def plainEnv_def
        fields_longAddressForm longAddress_nonempty lines_longAddress Let_def
        cong: let_weak_cong bind_weak_cong)
  show ?thesis using a b c by (simp add: geom_defs)
qed

section \<open>An image that cannot be loaded\<close>

text \<open>
  When \<^verbatim>\<open>doc.addImage\<close> throws on a payload the browser could not decode, the \<^verbatim>\<open>catch\<close>
  block does what the handler is written for: no page is added, the one-line notice is
  drawn at the cursor in the colour (150, 0, 0), the cursor moves down by 8 and the text
  colour is black again; the run goes on and the next defect is rendered.
\<close>

lemma notice_when_addImage_throws:
  assumes "wfDoc s" and "yPos s = Fin y"
    and "imageDims e (imageData d) = (0, 0)"
    and "\<And>x yy iw ih. addImageThrows e (imageData d) ''JPEG'' x yy iw ih"
  shows "\<exists>t. defectImage e i d s = Some t
    \<and> pages t = onLastPage (pages s)
             [TextOp ''[Image could not be loaded]'' margin (Fin y) AlignLeft 10 (fontBold s)
                (150, 0, 0)]
    \<and> yPos t = Fin (y + 8) \<and> textColor t = (0, 0, 0) \<and> wfDoc t"
  using assms
  by (simp add: defectImage_def imageFit_def imageError_def scaleImage_zero Let_def prim_defs
      jgt_def wfDoc_def update_last onLastPage_def del: scaleImage_def)

lemma notice_run:
  "map_option allTexts (generatePdf strictEnv emptyForm [unreadableDefect, jpegDefect]) = Some
     [''Inspection Company'', ''Home Defect Inspection Report'',
      ''Property & Client Details'', ''Inspection Details'', ''Attendance'', ''N/A'',
      ''Occupancy'', ''N/A'', ''Type of Building'', ''N/A'', ''Weather Condition'', ''N/A'',
      ''General Disclaimer'', ''Page 1 of 2'', ''Report generated: 3/15/2024, 10:00:00 AM'',
      ''Identified Defects (2 Total)'', ''Defect #1: Mould'', ''[Image could not be loaded]'',
      ''Mould behind the wardrobe'', ''Defect #2: Leak'', ''Stain under the window'',
      ''Page 2 of 2'', ''Report generated: 3/15/2024, 10:00:00 AM'']"
  by (simp add: run_defs prim_defs geom_defs env_defs Let_def showNat.simps digitChar_def
      upt_conv_Cons scaleImage_zero scaleImage_plain allTexts_def
      del: scaleImage_def imgRatio_def cong: let_weak_cong bind_weak_cong)

text \<open>
  C3. The claim is what the handler sets out to do (the \<^verbatim>\<open>Image\<close> resolves on \<^verbatim>\<open>onerror\<close>
  too, and the \<^verbatim>\<open>catch\<close> block draws the notice), and the handler does not do it for a
  payload that the browser cannot decode and \<^verbatim>\<open>doc.addImage\<close> takes. Nothing is thrown
  inside the \<^verbatim>\<open>try\<close>: width and height are 0, the scaled size is \<^verbatim>\<open>NaN\<close> by \<^verbatim>\<open>NaN\<close>, the
  image is placed with that size, no notice is drawn and the cursor is \<^verbatim>\<open>NaN\<close>. The next
  \<^verbatim>\<open>doc.text\<close>, the first line of the description, throws outside the \<^verbatim>\<open>try\<close>, and the
  outer \<^verbatim>\<open>catch\<close> ends the run: no document, neither for this defect alone nor when a
  defect with a good image follows it. The same report with the good image alone is
  produced.
\<close>

theorem undecodable_image_aborts_run:
  "imageDims lenientEnv (imageData unreadableDefect) = (0, 0)
   \<and> scaleImage 0 0 = (NaN, NaN)
   \<and> map_option (\<lambda>t. (pages t, yPos t))
        (defectImage lenientEnv 0 unreadableDefect (newDoc\<lparr>yPos := Fin 45\<rparr>)) =
       Some ([[ImageOp (imageData unreadableDefect) ''JPEG'' 20 (Fin 45) NaN NaN]], NaN)
   \<and> generatePdf lenientEnv emptyForm [unreadableDefect] = None
   \<and> generatePdf lenientEnv emptyForm [unreadableDefect, jpegDefect] = None
   \<and> map_option docImages (generatePdf lenientEnv emptyForm [jpegDefect]) =
       Some [(imageData jpegDefect, ''JPEG'')]"
proof -
  have a: "imageDims lenientEnv (imageData unreadableDefect) = (0, 0)"
    by (simp add: lenientEnv_def plainEnv_def)
  have b: "map_option (\<lambda>t. (pages t, yPos t))
        (defectImage lenientEnv 0 unreadableDefect (newDoc\<lparr>yPos := Fin 45\<rparr>)) =
       Some ([[ImageOp (imageData unreadableDefect) ''JPEG'' 20 (Fin 45) NaN NaN]], NaN)"
    by (simp add: defectImage_def imageFit_def a scaleImage_zero docAddImage_def drawOp_def
        lenientEnv_def plainEnv_def newDoc_def geom_defs jgt_def del: scaleImage_def)
  have c: "generatePdf lenientEnv emptyForm [unreadableDefect] = None"
    by (simp add: run_defs prim_defs geom_defs env_defs Let_def showNat.simps digitChar_def
        upt_conv_Cons scaleImage_zero scaleImage_plain del: scaleImage_def imgRatio_def
        cong: let_weak_cong bind_weak_cong)
  have d: "generatePdf lenientEnv emptyForm [unreadableDefect, jpegDefect] = None"
    by (simp add: run_defs prim_defs geom_defs env_defs Let_def showNat.simps digitChar_def
        upt_conv_Cons scaleImage_zero scaleImage_plain del: scaleImage_def imgRatio_def
        cong: let_weak_cong bind_weak_cong)
  have e: "map_option docImages (generatePdf lenientEnv emptyForm [jpegDefect]) =
       Some [(imageData jpegDefect, ''JPEG'')]"
    by (simp add: run_defs prim_defs geom_defs env_defs Let_def showNat.simps digitChar_def
        upt_conv_Cons scaleImage_zero scaleImage_plain docImages_def
        del: scaleImage_def imgRatio_def cong: let_weak_cong bind_weak_cong)
  show ?thesis using a b c d e by (simp add: scaleImage_zero del: scaleImage_def)
qed

end
